theory Spec2Isabelle
  imports Complex_Main "HOL-Library.AList"
begin

section \<open>The task file lifecycle of the Face2Face service (app/main.py)\<close>

text \<open>
  The development embeds class \<^verbatim>\<open>Face2FaceService\<close> of \<^verbatim>\<open>app/main.py\<close>.
  Everything the Python code reads from its surroundings is an explicit argument:
  the clock (\<^verbatim>\<open>time.time()\<close>), the random identifiers (\<^verbatim>\<open>uuid.uuid4()\<close>), the
  outcome of each HTTP request. Everything it changes is a field of the record
  \<open>service\<close>: the task table, the file system, the daemon threads that have been
  started and still sleep, and the log.

  Clock readings and modification times are real numbers (Python floats, compared
  with \<^verbatim>\<open>>\<close> only). The thresholds are the integers the module reads from its
  environment.
\<close>

subsection \<open>Configuration\<close>

record config =
  DUIX_DATA_DIR :: string
  CLEANUP_DELAY :: int
  PERIODIC_CLEANUP_INTERVAL :: int
  MAX_FILE_AGE :: int

text \<open>The values the module takes when the environment sets none of them.\<close>

definition default_config :: config where
  "default_config =
     \<lparr>DUIX_DATA_DIR = ''/code/data'', CLEANUP_DELAY = 60,
      PERIODIC_CLEANUP_INTERVAL = 300, MAX_FILE_AGE = 7200\<rparr>"

subsection \<open>Paths\<close>

type_synonym path = string

text \<open>\<^verbatim>\<open>os.path.join(a, b)\<close> of \<^verbatim>\<open>posixpath\<close>: an absolute \<open>b\<close> replaces \<open>a\<close>.\<close>

definition path_join :: "path \<Rightarrow> path \<Rightarrow> path" where
  "path_join a b =
     (if b \<noteq> [] \<and> hd b = CHR ''/'' then b
      else if a = [] \<or> last a = CHR ''/'' then a @ b
      else a @ ''/'' @ b)"

text \<open>\<^verbatim>\<open>os.path.basename(p)\<close>: what follows the last slash.\<close>

definition basename :: "path \<Rightarrow> string" where
  "basename p = rev (takeWhile (\<lambda>c. c \<noteq> CHR ''/'') (rev p))"

text \<open>
  \<^verbatim>\<open>str(PurePosixPath(p))\<close>, the string under which \<^verbatim>\<open>pathlib\<close> prints a path:
  the root is \<^verbatim>\<open>//\<close> for exactly two leading slashes and \<^verbatim>\<open>/\<close> for any other
  number of them; the components are what the slashes separate, without the empty
  ones and without \<^verbatim>\<open>.\<close> (a component \<^verbatim>\<open>..\<close> stays); the string is the root
  followed by the components joined by single slashes, and \<^verbatim>\<open>.\<close> when that is empty.
\<close>

fun split_slash :: "string \<Rightarrow> string list" where
  "split_slash [] = [[]]"
| "split_slash (c # cs) =
     (if c = CHR ''/'' then [] # split_slash cs
      else (case split_slash cs of w # ws \<Rightarrow> (c # w) # ws | [] \<Rightarrow> [[c]]))"

fun join_slash :: "string list \<Rightarrow> string" where
  "join_slash [] = []"
| "join_slash [w] = w"
| "join_slash (w # v # ws) = w @ ''/'' @ join_slash (v # ws)"

definition path_root :: "path \<Rightarrow> string" where
  "path_root p =
     (if take 2 p = ''//'' \<and> take 3 p \<noteq> ''///'' then ''//''
      else if take 1 p = ''/'' then ''/'' else [])"

definition path_parts :: "path \<Rightarrow> string list" where
  "path_parts p = filter (\<lambda>w. w \<noteq> [] \<and> w \<noteq> ''.'') (split_slash p)"

definition posix_str :: "path \<Rightarrow> string" where
  "posix_str p =
     (let printed = path_root p @ join_slash (path_parts p)
      in if printed = [] then ''.'' else printed)"

text \<open>\<^verbatim>\<open>str(n)\<close> for an integer, in decimal.\<close>

fun str_nat :: "nat \<Rightarrow> string" where
  "str_nat n =
     (if n < 10 then [''0123456789'' ! n]
      else str_nat (n div 10) @ [''0123456789'' ! (n mod 10)])"

declare str_nat.simps [simp del]

definition str_int :: "int \<Rightarrow> string" where
  "str_int i = (if i < 0 then CHR ''-'' # str_nat (nat (- i)) else str_nat (nat i))"

text \<open>\<^verbatim>\<open>int(x)\<close> of a float: truncation towards zero.\<close>

definition int_of_float :: "real \<Rightarrow> int" where
  "int_of_float x = (if 0 \<le> x then \<lfloor>x\<rfloor> else \<lceil>x\<rceil>)"

subsection \<open>The file system\<close>

text \<open>
  The file system is a table from path strings to entries, in the order a directory
  listing reports them. An entry is a regular file (modification time, bytes, and
  whether the operating system refuses to unlink or rewrite it) or a directory.
  A file is identified with the string under which \<^verbatim>\<open>os.path\<close> and \<^verbatim>\<open>open\<close>
  were given it: the table does not resolve \<^verbatim>\<open>..\<close> or symbolic links, and a file
  directly in the storage directory \<open>d\<close> has the key \<^verbatim>\<open>os.path.join(d, name)\<close>.
  The storage directory itself, made by \<^verbatim>\<open>os.makedirs\<close> in \<^verbatim>\<open>__init__\<close>, is
  not an entry of the table: the table holds what lies below it.
\<close>

datatype entry = File (st_mtime: real) (content: string) (immutable: bool) | Dir

type_synonym filesystem = "(path \<times> entry) list"

datatype os_error = FileNotFoundError | IsADirectoryError | PermissionError

definition os_path_exists :: "filesystem \<Rightarrow> path \<Rightarrow> bool" where
  "os_path_exists fs p = (map_of fs p \<noteq> None)"

text \<open>\<^verbatim>\<open>os.unlink(p)\<close> and \<^verbatim>\<open>Path.unlink()\<close>: the table without \<open>p\<close>, or the error raised.\<close>

definition os_unlink :: "path \<Rightarrow> filesystem \<Rightarrow> os_error + filesystem" where
  "os_unlink p fs =
     (case map_of fs p of
        None \<Rightarrow> Inl FileNotFoundError
      | Some Dir \<Rightarrow> Inl IsADirectoryError
      | Some (File m c i) \<Rightarrow> if i then Inl PermissionError else Inr (AList.delete p fs))"

text \<open>
  \<^verbatim>\<open>open(p, 'wb')\<close> followed by the writes of the download loop: the file is created
  or truncated, and holds the bytes \<open>bytes\<close> with modification time \<open>now\<close>.
\<close>

definition open_wb_write :: "path \<Rightarrow> real \<Rightarrow> string \<Rightarrow> filesystem \<Rightarrow> os_error + filesystem" where
  "open_wb_write p now bytes fs =
     (case map_of fs p of
        Some Dir \<Rightarrow> Inl IsADirectoryError
      | Some (File m c i) \<Rightarrow>
          if i then Inl PermissionError else Inr (AList.update p (File now bytes False) fs)
      | None \<Rightarrow> Inr (AList.update p (File now bytes False) fs))"

text \<open>
  \<^verbatim>\<open>Path(d).iterdir()\<close>: the entries directly in \<open>d\<close>, each once. A name is not
  empty, holds no slash and is neither \<^verbatim>\<open>.\<close> nor \<^verbatim>\<open>..\<close>. The listing yields
  \<^verbatim>\<open>Path\<close> objects \<^verbatim>\<open>Path(d) / name\<close>. Such an object is held here as the key of
  its file in the table, \<^verbatim>\<open>os.path.join(d, name)\<close>, on which \<^verbatim>\<open>is_file\<close>,
  \<^verbatim>\<open>stat\<close> and \<^verbatim>\<open>unlink\<close> act. The string \<^verbatim>\<open>str(file_path)\<close> of the object is
  not that key but what \<^verbatim>\<open>pathlib\<close> prints for it, \<open>posix_str\<close> of the key: for the
  directory \<^verbatim>\<open>./data\<close> the file with key \<^verbatim>\<open>./data/a.mp3\<close> is listed with the
  string \<^verbatim>\<open>data/a.mp3\<close>.
\<close>

definition dir_prefix :: "path \<Rightarrow> path" where
  "dir_prefix d = (if d = [] \<or> last d = CHR ''/'' then d else d @ ''/'')"

definition is_child :: "path \<Rightarrow> path \<Rightarrow> bool" where
  "is_child d p =
     (let pre = dir_prefix d; name = drop (length pre) p
      in take (length pre) p = pre \<and> name \<noteq> [] \<and> CHR ''/'' \<notin> set name
         \<and> name \<noteq> ''.'' \<and> name \<noteq> ''..'')"

definition iterdir :: "path \<Rightarrow> filesystem \<Rightarrow> path list" where
  "iterdir d fs = remdups (filter (is_child d) (map fst fs))"

subsection \<open>The task table and the state of the service\<close>

text \<open>
  One value of \<^verbatim>\<open>self.task_files\<close>: the dictionary written by \<^verbatim>\<open>submit_task\<close>
  (\<^verbatim>\<open>audio_local\<close>, \<^verbatim>\<open>video_local\<close>, \<^verbatim>\<open>created_time\<close>) and extended by
  \<^verbatim>\<open>get_result\<close> (\<^verbatim>\<open>result_file\<close>, \<^verbatim>\<open>result_retrieved_time\<close>).
\<close>

record task_info =
  audio_local :: path
  video_local :: path
  created_time :: real
  result_file :: "path option"
  result_retrieved_time :: "real option"

datatype key = Audio_local | Video_local | Result_file

text \<open>\<^verbatim>\<open>task_info.get(key)\<close> for the three keys that hold paths.\<close>

fun task_get :: "task_info \<Rightarrow> key \<Rightarrow> path option" where
  "task_get ti Audio_local = Some (audio_local ti)"
| "task_get ti Video_local = Some (video_local ti)"
| "task_get ti Result_file = result_file ti"

text \<open>
  A daemon thread that has been started and sleeps: the worker of \<^verbatim>\<open>cleanup_files\<close>
  (with its paths and its delay) or the worker of \<^verbatim>\<open>_schedule_task_cleanup\<close>.
\<close>

datatype deferred = Do_cleanup "path list" int | Cleanup_task_mapping string

datatype event =
    Info_cleaned_failed_download path
  | Warn_cleanup_failed_download path
  | Error_download
  | Error_submit
  | Warn_unknown_task string
  | Error_get_result
  | Warn_delete_failed path
  | Warn_sweep_delete_failed path
  | Info_periodic nat

record service =
  task_files :: "(string \<times> task_info) list"
  files :: filesystem
  pending :: "deferred list"
  logged :: "event list"

definition logger :: "event \<Rightarrow> service \<Rightarrow> service" where
  "logger e s = s\<lparr>logged := logged s @ [e]\<rparr>"

datatype http_exception = HTTPException nat

subsection \<open>\<^verbatim>\<open>cleanup_files\<close>\<close>

text \<open>
  The loop of \<^verbatim>\<open>do_cleanup\<close>: a path that exists is unlinked, and an exception of
  \<^verbatim>\<open>os.unlink\<close> is caught inside the loop and logged as a warning.
\<close>

fun do_cleanup :: "path list \<Rightarrow> service \<Rightarrow> service" where
  "do_cleanup [] s = s"
| "do_cleanup (file_path # rest) s =
     do_cleanup rest
       (if os_path_exists (files s) file_path then
          (case os_unlink file_path (files s) of
             Inr fs' \<Rightarrow> s\<lparr>files := fs'\<rparr>
           | Inl e \<Rightarrow> logger (Warn_delete_failed file_path) s)
        else s)"

text \<open>
  With a positive delay the worker is started as a thread, which sleeps first: it is
  added to \<open>pending\<close>. Otherwise the worker runs before \<^verbatim>\<open>cleanup_files\<close> returns.
\<close>

definition cleanup_files :: "path list \<Rightarrow> int \<Rightarrow> service \<Rightarrow> service" where
  "cleanup_files file_paths delay s =
     (if delay > 0 then s\<lparr>pending := pending s @ [Do_cleanup file_paths delay]\<rparr>
      else do_cleanup file_paths s)"

text \<open>\<^verbatim>\<open>_schedule_task_cleanup\<close>: the thread that will pop the task after its sleep.\<close>

definition schedule_task_cleanup :: "string \<Rightarrow> service \<Rightarrow> service" where
  "schedule_task_cleanup task_code s =
     s\<lparr>pending := pending s @ [Cleanup_task_mapping task_code]\<rparr>"

text \<open>What a sleeping thread does when it wakes.\<close>

fun run_deferred :: "deferred \<Rightarrow> service \<Rightarrow> service" where
  "run_deferred (Do_cleanup file_paths delay) s = do_cleanup file_paths s"
| "run_deferred (Cleanup_task_mapping task_code) s =
     s\<lparr>task_files := AList.delete task_code (task_files s)\<rparr>"

subsection \<open>\<^verbatim>\<open>download_file\<close>\<close>

text \<open>
  What the network does with \<^verbatim>\<open>requests.get\<close> and the streaming of its body:
  the request raises, \<^verbatim>\<open>raise_for_status\<close> raises, or the body is streamed. A
  stream brings some bytes and either ends (\<open>True\<close>) or breaks after them with an
  exception of the network or of the write (\<open>False\<close>).
\<close>

datatype response = Request_failed | Bad_status nat | Stream string bool

text \<open>
  The name of the staged file. \<open>url_path\<close> is \<^verbatim>\<open>urlparse(url).path\<close>; \<open>now\<close> is
  the clock and \<open>hex8\<close> is \<^verbatim>\<open>uuid.uuid4().hex[:8]\<close>.
\<close>

definition staged_filename :: "string \<Rightarrow> string \<Rightarrow> real \<Rightarrow> string \<Rightarrow> string" where
  "staged_filename url_path file_type now hex8 =
     (let original_filename = basename url_path
      in if original_filename = [] \<or> CHR ''.'' \<notin> set original_filename then
           (let ext = (if file_type = ''audio'' then ''.mp3'' else ''.mp4'')
            in str_int (int_of_float now) @ ''_'' @ file_type @ ''_'' @ hex8 @ ext)
         else original_filename)"

definition staged_local_path :: "config \<Rightarrow> string \<Rightarrow> string \<Rightarrow> real \<Rightarrow> string \<Rightarrow> path" where
  "staged_local_path cfg url_path file_type now hex8 =
     path_join (DUIX_DATA_DIR cfg) (staged_filename url_path file_type now hex8)"

text \<open>
  The body of the \<^verbatim>\<open>try\<close>: the file system it leaves, and whether it reached its
  \<^verbatim>\<open>return\<close>. Nothing is opened when the request fails; a stream that breaks leaves
  the bytes written so far.
\<close>

definition try_download :: "path \<Rightarrow> real \<Rightarrow> response \<Rightarrow> filesystem \<Rightarrow> filesystem \<times> bool" where
  "try_download local_path now resp fs =
     (case resp of
        Request_failed \<Rightarrow> (fs, False)
      | Bad_status code \<Rightarrow> (fs, False)
      | Stream bytes finished \<Rightarrow>
          (case open_wb_write local_path now bytes fs of
             Inl e \<Rightarrow> (fs, False)
           | Inr fs' \<Rightarrow> (fs', finished)))"

text \<open>
  The \<^verbatim>\<open>except\<close> branch removes what exists at the local path, logs a failure of
  that removal, and raises \<^verbatim>\<open>HTTPException(status_code=400)\<close>. The result on
  success is the pair \<^verbatim>\<open>(container_path, local_path)\<close>.
\<close>

definition download_file ::
  "config \<Rightarrow> string \<Rightarrow> string \<Rightarrow> real \<Rightarrow> string \<Rightarrow> response \<Rightarrow> service
     \<Rightarrow> (http_exception + path \<times> path) \<times> service" where
  "download_file cfg url_path file_type now hex8 resp s =
     (let filename = staged_filename url_path file_type now hex8;
          local_path = path_join (DUIX_DATA_DIR cfg) filename;
          container_path = ''/code/data/'' @ filename
      in case try_download local_path now resp (files s) of
           (fs1, True) \<Rightarrow> (Inr (container_path, local_path), s\<lparr>files := fs1\<rparr>)
         | (fs1, False) \<Rightarrow>
             (let s1 = s\<lparr>files := fs1\<rparr>;
                  s2 = (if os_path_exists fs1 local_path then
                          (case os_unlink local_path fs1 of
                             Inr fs2 \<Rightarrow>
                               logger (Info_cleaned_failed_download local_path) (s1\<lparr>files := fs2\<rparr>)
                           | Inl e \<Rightarrow> logger (Warn_cleanup_failed_download local_path) s1)
                        else s1)
              in (Inl (HTTPException 400), logger Error_download s2)))"

subsection \<open>\<^verbatim>\<open>submit_task\<close>\<close>

text \<open>
  What one call of \<^verbatim>\<open>submit_task\<close> reads from outside: for each download the
  clock, the random suffix and the response; the identifier \<^verbatim>\<open>str(uuid.uuid4())\<close>;
  the reply of the engine to \<^verbatim>\<open>/easy/submit\<close>; the clock when the record is made.
\<close>

datatype engine_reply = Unreachable | Reply nat "int option"

record submit_env =
  audio_now :: real
  audio_hex :: string
  audio_resp :: response
  video_now :: real
  video_hex :: string
  video_resp :: response
  new_code :: string
  engine :: engine_reply
  created_now :: real

text \<open>
  The \<^verbatim>\<open>except\<close> branch of \<^verbatim>\<open>submit_task\<close>, with the values the three local
  variables have when the exception arrives (\<open>None\<close> where not yet assigned).
\<close>

definition submit_except ::
  "path option \<Rightarrow> path option \<Rightarrow> string option \<Rightarrow> service
     \<Rightarrow> (http_exception + string) \<times> service" where
  "submit_except audio_local' video_local' task_code s =
     (let cleanup = concat (map (\<lambda>f. case f of Some p \<Rightarrow> if p \<noteq> [] then [p] else [] | None \<Rightarrow> [])
                              [audio_local', video_local']);
          s1 = (if cleanup \<noteq> [] then cleanup_files cleanup 0 s else s);
          s2 = (case task_code of
                  Some c \<Rightarrow>
                    if c \<noteq> [] then s1\<lparr>task_files := AList.delete c (task_files s1)\<rparr> else s1
                | None \<Rightarrow> s1)
      in (Inl (HTTPException 500), logger Error_submit s2))"

definition submit_task ::
  "config \<Rightarrow> string \<Rightarrow> string \<Rightarrow> submit_env \<Rightarrow> service
     \<Rightarrow> (http_exception + string) \<times> service" where
  "submit_task cfg audio_url video_url env s =
     (case download_file cfg audio_url ''audio'' (audio_now env) (audio_hex env) (audio_resp env) s of
        (Inl e, s1) \<Rightarrow> submit_except None None None s1
      | (Inr (audio_container_path, audio_local'), s1) \<Rightarrow>
          (case download_file cfg video_url ''video'' (video_now env) (video_hex env)
                  (video_resp env) s1 of
             (Inl e, s2) \<Rightarrow> submit_except (Some audio_local') None None s2
           | (Inr (video_container_path, video_local'), s2) \<Rightarrow>
               (let task_code = new_code env
                in if engine env = Reply 200 (Some 10000) then
                     (Inr task_code,
                      s2\<lparr>task_files :=
                           AList.update task_code
                             \<lparr>audio_local = audio_local', video_local = video_local',
                              created_time = created_now env, result_file = None,
                              result_retrieved_time = None\<rparr>
                             (task_files s2)\<rparr>)
                   else submit_except (Some audio_local') (Some video_local') (Some task_code) s2)))"

subsection \<open>\<^verbatim>\<open>get_result\<close>\<close>

text \<open>
  The result is \<^verbatim>\<open>(video_data, size)\<close>. A missing file and a directory at the
  output path both end in the \<^verbatim>\<open>except\<close> branch (\<^verbatim>\<open>open\<close> raises on a directory).
\<close>

definition get_result ::
  "config \<Rightarrow> string \<Rightarrow> string option \<Rightarrow> real \<Rightarrow> service
     \<Rightarrow> (http_exception + string \<times> nat) \<times> service" where
  "get_result cfg result_filename task_code now s =
     (let temp_dir = path_join (DUIX_DATA_DIR cfg) ''temp'';
          output_path = path_join temp_dir result_filename;
          given = (case task_code of Some c \<Rightarrow> c \<noteq> [] | None \<Rightarrow> False)
      in case map_of (files s) output_path of
           None \<Rightarrow> (Inl (HTTPException 500), logger Error_get_result s)
         | Some Dir \<Rightarrow> (Inl (HTTPException 500), logger Error_get_result s)
         | Some (File m video_data i) \<Rightarrow>
             (let (files_to_cleanup, s1) =
                    (if given then
                       (case map_of (task_files s) (the task_code) of
                          Some ti \<Rightarrow>
                            ([output_path]
                               @ (if audio_local ti \<noteq> [] then [audio_local ti] else [])
                               @ (if video_local ti \<noteq> [] then [video_local ti] else []),
                             s\<lparr>task_files :=
                                 AList.update (the task_code)
                                   (ti\<lparr>result_file := Some output_path,
                                       result_retrieved_time := Some now\<rparr>)
                                   (task_files s)\<rparr>)
                        | None \<Rightarrow> ([output_path], logger (Warn_unknown_task (the task_code)) s))
                     else ([output_path], s));
                  s2 = cleanup_files files_to_cleanup (CLEANUP_DELAY cfg) s1;
                  s3 = (if given then schedule_task_cleanup (the task_code) s2 else s2)
              in (Inr (video_data, length video_data), s3)))"

subsection \<open>\<^verbatim>\<open>periodic_cleanup\<close>\<close>

text \<open>
  The first block of \<^verbatim>\<open>periodic_cleanup\<close>: the set of the paths of all tasks, a
  path being added when \<^verbatim>\<open>task_info.get(key)\<close> is truthy (set and not empty).
\<close>

definition add_task_files :: "task_info \<Rightarrow> path set \<Rightarrow> path set" where
  "add_task_files ti acc =
     fold (\<lambda>k acc. case task_get ti k of
                      Some v \<Rightarrow> if v \<noteq> [] then insert v acc else acc
                    | None \<Rightarrow> acc)
          [Audio_local, Video_local, Result_file] acc"

definition active_files :: "(string \<times> task_info) list \<Rightarrow> path set" where
  "active_files tf = fold (\<lambda>(task_code, ti) acc. add_task_files ti acc) tf {}"

record stats =
  orphan_files :: nat
  old_files :: nat
  expired_tasks :: nat

text \<open>
  The body of the loop over the directory, for one listed \<^verbatim>\<open>file_path\<close>:
  directories are skipped; \<^verbatim>\<open>file_str = str(file_path)\<close> is looked up in the active
  set; a file whose string is outside the set goes when older than
  \<open>CLEANUP_DELAY\<close>, a file whose string is inside it when older than
  \<open>MAX_FILE_AGE\<close>; an exception of \<^verbatim>\<open>unlink\<close> is logged and the loop goes on.
\<close>

definition sweep_file ::
  "config \<Rightarrow> real \<Rightarrow> path set \<Rightarrow> path \<Rightarrow> service \<times> stats \<Rightarrow> service \<times> stats" where
  "sweep_file cfg current_time active file_path acc =
     (case acc of (s, st) \<Rightarrow>
        (case map_of (files s) file_path of
           None \<Rightarrow> (s, st)
         | Some Dir \<Rightarrow> (s, st)
         | Some (File mtime c i) \<Rightarrow>
             (let file_str = posix_str file_path;
                  file_age = current_time - mtime;
                  (should_delete, st1) =
                    (if file_str \<notin> active then
                       (if file_age > real_of_int (CLEANUP_DELAY cfg)
                        then (True, st\<lparr>orphan_files := orphan_files st + 1\<rparr>)
                        else (False, st))
                     else if file_age > real_of_int (MAX_FILE_AGE cfg)
                       then (True, st\<lparr>old_files := old_files st + 1\<rparr>)
                     else (False, st))
              in if should_delete then
                   (case os_unlink file_path (files s) of
                      Inr fs' \<Rightarrow> (s\<lparr>files := fs'\<rparr>, st1)
                    | Inl e \<Rightarrow> (logger (Warn_sweep_delete_failed file_path) s, st1))
                 else (s, st1))))"

text \<open>The second block: the tasks whose record is older than \<open>MAX_FILE_AGE\<close> are popped.\<close>

definition expired_tasks_of :: "config \<Rightarrow> real \<Rightarrow> (string \<times> task_info) list \<Rightarrow> string list" where
  "expired_tasks_of cfg current_time tf =
     map fst (filter (\<lambda>(task_code, ti).
                 current_time - created_time ti > real_of_int (MAX_FILE_AGE cfg)) tf)"

definition pop_expired :: "string list \<Rightarrow> service \<times> stats \<Rightarrow> service \<times> stats" where
  "pop_expired codes acc =
     fold (\<lambda>task_code (s, st).
             (s\<lparr>task_files := AList.delete task_code (task_files s)\<rparr>,
              st\<lparr>expired_tasks := expired_tasks st + 1\<rparr>)) codes acc"

definition periodic_cleanup :: "config \<Rightarrow> real \<Rightarrow> service \<Rightarrow> stats \<times> service" where
  "periodic_cleanup cfg current_time s =
     (let st0 = \<lparr>orphan_files = 0, old_files = 0, expired_tasks = 0\<rparr>;
          active = active_files (task_files s);
          (s1, st1) = fold (sweep_file cfg current_time active)
                        (iterdir (DUIX_DATA_DIR cfg) (files s)) (s, st0);
          (s2, st2) = pop_expired (expired_tasks_of cfg current_time (task_files s1)) (s1, st1);
          total_cleaned = orphan_files st2 + old_files st2 + expired_tasks st2
      in (st2, if total_cleaned > 0 then logger (Info_periodic total_cleaned) s2 else s2))"

subsection \<open>Runs of the service\<close>

text \<open>
  The service starts with an empty task table. A run is a sequence of calls and of
  steps of its surroundings: a submission, a result fetch, the waking of the
  \<open>i\<close>-th sleeping thread, a pass of the periodic cleanup, and a change of the
  file system by another process (the engine writes its results below the storage
  directory). The loop of \<^verbatim>\<open>start_periodic_cleanup\<close> is the source of the passes;
  \<^verbatim>\<open>query_task\<close> reads and writes nothing of the state and is no step.
\<close>

datatype op =
    Submit string string submit_env
  | Fetch string "string option" real
  | Wake nat
  | Sweep real
  | World filesystem

fun apply_op :: "config \<Rightarrow> op \<Rightarrow> service \<Rightarrow> service" where
  "apply_op cfg (Submit audio_url video_url env) s = snd (submit_task cfg audio_url video_url env s)"
| "apply_op cfg (Fetch result_filename task_code now) s =
     snd (get_result cfg result_filename task_code now s)"
| "apply_op cfg (Wake i) s =
     (if i < length (pending s) then
        run_deferred (pending s ! i) (s\<lparr>pending := take i (pending s) @ drop (Suc i) (pending s)\<rparr>)
      else s)"
| "apply_op cfg (Sweep now) s = snd (periodic_cleanup cfg now s)"
| "apply_op cfg (World fs) s = s\<lparr>files := fs\<rparr>"

definition init :: "filesystem \<Rightarrow> service" where
  "init fs = \<lparr>task_files = [], files = fs, pending = [], logged = []\<rparr>"

definition run :: "config \<Rightarrow> op list \<Rightarrow> service \<Rightarrow> service" where
  "run cfg ops s = fold (apply_op cfg) ops s"

subsection \<open>Vocabulary of the properties\<close>

text \<open>
  \<open>unlinkable fs p\<close>: \<^verbatim>\<open>os.unlink(p)\<close> would succeed, that is, \<open>p\<close> names a regular
  file that the operating system lets go.
\<close>

definition unlinkable :: "filesystem \<Rightarrow> path \<Rightarrow> bool" where
  "unlinkable fs p = (case map_of fs p of Some (File m c i) \<Rightarrow> \<not> i | _ \<Rightarrow> False)"

text \<open>
  \<open>doomed cfg now active fs p\<close>: the loop body of the cleanup pass sets
  \<^verbatim>\<open>should_delete\<close> for the listed file with key \<open>p\<close>.
\<close>

definition doomed :: "config \<Rightarrow> real \<Rightarrow> path set \<Rightarrow> filesystem \<Rightarrow> path \<Rightarrow> bool" where
  "doomed cfg now active fs p =
     (case map_of fs p of
        Some (File m c i) \<Rightarrow>
          (if posix_str p \<in> active then now - m > real_of_int (MAX_FILE_AGE cfg)
           else now - m > real_of_int (CLEANUP_DELAY cfg))
      | _ \<Rightarrow> False)"

text \<open>The paths a record names: its two input files, and its result file when set.\<close>

definition task_paths :: "task_info \<Rightarrow> path set" where
  "task_paths ti = {audio_local ti, video_local ti} \<union> set_option (result_file ti)"

text \<open>
  \<open>open_refused fs p\<close>: a directory, or a file the system protects, is at \<open>p\<close>; then
  neither \<^verbatim>\<open>open(p, 'wb')\<close> nor \<^verbatim>\<open>os.unlink(p)\<close> succeeds.
\<close>

definition open_refused :: "filesystem \<Rightarrow> path \<Rightarrow> bool" where
  "open_refused fs p = (os_path_exists fs p \<and> \<not> unlinkable fs p)"

text \<open>
  The active file set in the words of the specification: the union, over all current
  records of the table (the values of the dictionary), of every input path, and of the
  result path if set. It is compared with \<open>active_files\<close>, which follows the code.
\<close>

definition spec_active_file_set :: "(string \<times> task_info) list \<Rightarrow> path set" where
  "spec_active_file_set tf = (\<Union>ti\<in>ran (map_of tf). task_paths ti)"

text \<open>
  What holds of the task table in every state the service reaches: it is a dictionary
  (no identifier twice) and no record names the empty path.
\<close>

definition registry_ok :: "(string \<times> task_info) list \<Rightarrow> bool" where
  "registry_ok tf = (distinct (map fst tf) \<and> (\<forall>(c, ti)\<in>set tf. [] \<notin> task_paths ti))"

text \<open>No path is named by the records of two different identifiers.\<close>

definition exclusive_paths :: "(string \<times> task_info) list \<Rightarrow> bool" where
  "exclusive_paths tf =
     (\<forall>(c1, t1)\<in>set tf. \<forall>(c2, t2)\<in>set tf. c1 \<noteq> c2 \<longrightarrow> task_paths t1 \<inter> task_paths t2 = {})"

text \<open>The record \<^verbatim>\<open>submit_task\<close> writes when it succeeds.\<close>

definition new_record :: "config \<Rightarrow> string \<Rightarrow> string \<Rightarrow> submit_env \<Rightarrow> task_info" where
  "new_record cfg audio_url video_url env =
     \<lparr>audio_local = staged_local_path cfg audio_url ''audio'' (audio_now env) (audio_hex env),
      video_local = staged_local_path cfg video_url ''video'' (video_now env) (video_hex env),
      created_time = created_now env, result_file = None, result_retrieved_time = None\<rparr>"

text \<open>The \<^verbatim>\<open>output_path\<close> of \<^verbatim>\<open>get_result\<close>.\<close>

definition output_path :: "config \<Rightarrow> string \<Rightarrow> path" where
  "output_path cfg result_filename =
     path_join (path_join (DUIX_DATA_DIR cfg) ''temp'') result_filename"

text \<open>
  \<open>fresh_for cfg op s\<close>: the paths the operation would record are named by no record
  of another identifier.
\<close>

fun fresh_for :: "config \<Rightarrow> op \<Rightarrow> service \<Rightarrow> bool" where
  "fresh_for cfg (Submit audio_url video_url env) s =
     (\<forall>(c, ti)\<in>set (task_files s). c \<noteq> new_code env \<longrightarrow>
        task_paths (new_record cfg audio_url video_url env) \<inter> task_paths ti = {})"
| "fresh_for cfg (Fetch result_filename (Some code) now) s =
     (\<forall>(c, ti)\<in>set (task_files s). c \<noteq> code \<longrightarrow> output_path cfg result_filename \<notin> task_paths ti)"
| "fresh_for cfg other s = True"

text \<open>
  \<open>records cfg op s\<close>: the operation writes a record, that is, it is a submission
  that succeeds, or a result fetch that succeeds for an identifier of the table.
\<close>

fun records :: "config \<Rightarrow> op \<Rightarrow> service \<Rightarrow> bool" where
  "records cfg (Submit audio_url video_url env) s =
     (case fst (submit_task cfg audio_url video_url env s) of Inl e \<Rightarrow> False | Inr c \<Rightarrow> True)"
| "records cfg (Fetch result_filename task_code now) s =
     (case fst (get_result cfg result_filename task_code now s) of
        Inl e \<Rightarrow> False
      | Inr r \<Rightarrow>
          (case task_code of
             Some code \<Rightarrow> code \<noteq> [] \<and> map_of (task_files s) code \<noteq> None
           | None \<Rightarrow> False))"
| "records cfg other s = False"

text \<open>\<open>shrinks tf tf'\<close>: \<open>tf'\<close> keeps some entries of \<open>tf\<close> and adds none.\<close>

definition shrinks :: "('k \<times> 'v) list \<Rightarrow> ('k \<times> 'v) list \<Rightarrow> bool" where
  "shrinks tf tf' = (set tf' \<subseteq> set tf \<and> (distinct (map fst tf) \<longrightarrow> distinct (map fst tf')))"

subsection \<open>Example states\<close>

definition example_disk :: filesystem where
  "example_disk =
     [(''/code/data/a.mp3'', File 100 ''AUDIO'' False),
      (''/code/data/temp'', Dir),
      (''/code/data/temp/out.mp4'', File 150 ''RESULT'' False),
      (''/code/data/locked.bin'', File 0 ''L'' True)]"

definition example_service :: service where
  "example_service =
     \<lparr>task_files =
        [(''job1'', \<lparr>audio_local = ''/code/data/a.mp3'', video_local = ''/code/data/b.mp4'',
                     created_time = 105, result_file = None, result_retrieved_time = None\<rparr>)],
      files =
        [(''/code/data/a.mp3'', File 100 ''AUDIO'' False),
         (''/code/data/b.mp4'', File 101 ''VIDEO'' False),
         (''/code/data/stray.bin'', File 100 ''S'' False),
         (''/code/data/fresh.bin'', File 990 ''F'' False),
         (''/code/data/temp'', Dir),
         (''/code/data/temp/out.mp4'', File 150 ''RESULT'' False),
         (''/code/data/locked.bin'', File 0 ''L'' True)],
      pending = [], logged = []\<rparr>"

definition example_env :: submit_env where
  "example_env =
     \<lparr>audio_now = 0, audio_hex = ''0badcafe'', audio_resp = Stream ''AUDIO'' True,
      video_now = 1, video_hex = ''deadbeef'', video_resp = Stream ''VIDEO'' True,
      new_code = ''job1'', engine = Reply 200 (Some 10000), created_now = 5\<rparr>"

definition example_submitted :: service where
  "example_submitted =
     run default_config [Submit ''/media/a.mp3'' ''/media/b.mp4'' example_env] (init [])"

definition scenario_config :: config where
  "scenario_config = default_config\<lparr>CLEANUP_DELAY := 1\<rparr>"

definition scenario_untracked :: service where
  "scenario_untracked = init [(''/code/data/untracked.bin'', File 10 ''U'' False)]"

definition example_broken_env :: submit_env where
  "example_broken_env = example_env\<lparr>video_resp := Stream ''VID'' False\<rparr>"

definition example_rejected_env :: submit_env where
  "example_rejected_env = example_env\<lparr>engine := Reply 200 (Some 10001)\<rparr>"

definition example_fetched :: service where
  "example_fetched =
     run default_config
       [Submit ''/media/a.mp3'' ''/media/b.mp4'' example_env,
        World [(''/code/data/a.mp3'', File 0 ''AUDIO'' False),
               (''/code/data/b.mp4'', File 1 ''VIDEO'' False),
               (''/code/data/temp'', Dir),
               (''/code/data/temp/out.mp4'', File 40 ''RESULT'' False)],
        Fetch ''out.mp4'' (Some ''job1'') 50]
       (init [])"

definition example_env2 :: submit_env where
  "example_env2 =
     example_env\<lparr>audio_now := 10, video_now := 11, new_code := ''job2'', created_now := 15\<rparr>"

definition example_shared :: service where
  "example_shared =
     run default_config
       [Submit ''/media/a.mp3'' ''/media/b.mp4'' example_env,
        Submit ''/media/a.mp3'' ''/other/c.mp4'' example_env2]
       (init [])"

text \<open>The same submission with the storage directory configured as \<^verbatim>\<open>./data\<close>.\<close>

definition relative_config :: config where
  "relative_config = default_config\<lparr>DUIX_DATA_DIR := ''./data''\<rparr>"

definition example_relative :: service where
  "example_relative =
     run relative_config [Submit ''/media/a.mp3'' ''/media/b.mp4'' example_env] (init [])"

definition example_rejected_env2 :: submit_env where
  "example_rejected_env2 = example_env2\<lparr>engine := Reply 200 (Some 10001)\<rparr>"

section \<open>Properties\<close>

subsection \<open>Cleanup of a list of paths\<close>

lemma map_of_delete: "map_of (AList.delete k al) = (map_of al)(k := None)"
  by (rule ext) (simp add: AList.delete_conv')

lemma os_unlink_Inr:
  "os_unlink p fs = Inr fs' \<longleftrightarrow> unlinkable fs p \<and> fs' = AList.delete p fs"
  by (auto simp: os_unlink_def unlinkable_def split: option.splits entry.splits)

lemma os_unlink_cases:
  "os_unlink p fs = (if unlinkable fs p then Inr (AList.delete p fs)
     else Inl (case map_of fs p of None \<Rightarrow> FileNotFoundError | Some Dir \<Rightarrow> IsADirectoryError
                | Some (File m c i) \<Rightarrow> PermissionError))"
  by (auto simp: os_unlink_def unlinkable_def split: option.splits entry.splits)

lemma unlinkable_exists: "unlinkable fs p \<Longrightarrow> os_path_exists fs p"
  by (auto simp: unlinkable_def os_path_exists_def split: option.splits)

lemma do_cleanup_task_files [simp]: "task_files (do_cleanup ps s) = task_files s"
  by (induction ps arbitrary: s) (auto simp: logger_def split: sum.splits)

lemma do_cleanup_pending [simp]: "pending (do_cleanup ps s) = pending s"
  by (induction ps arbitrary: s) (auto simp: logger_def split: sum.splits)

lemma unlinkable_delete:
  "unlinkable (AList.delete q fs) p \<longleftrightarrow> p \<noteq> q \<and> unlinkable fs p"
  by (auto simp: unlinkable_def map_of_delete)

lemma do_cleanup_files:
  "map_of (files (do_cleanup ps s)) p =
     (if p \<in> set ps \<and> unlinkable (files s) p then None else map_of (files s) p)"
proof (induction ps arbitrary: s)
  case Nil
  show ?case by simp
next
  case (Cons q ps)
  show ?case
  proof (cases "unlinkable (files s) q")
    case True
    then show ?thesis
      using unlinkable_exists [OF True]
      by (auto simp: Cons.IH os_unlink_cases unlinkable_delete map_of_delete unlinkable_def)
  next
    case False
    then show ?thesis
      by (auto simp: Cons.IH os_unlink_cases logger_def)
  qed
qed

lemma do_cleanup_logged_mono: "set (logged s) \<subseteq> set (logged (do_cleanup ps s))"
proof (induction ps arbitrary: s)
  case Nil
  show ?case by simp
next
  case (Cons q ps)
  have "set (logged s) \<subseteq> set (logged (if os_path_exists (files s) q then
          (case os_unlink q (files s) of Inr fs' \<Rightarrow> s\<lparr>files := fs'\<rparr>
           | Inl e \<Rightarrow> logger (Warn_delete_failed q) s) else s))"
    by (auto simp: logger_def split: sum.splits)
  also have "\<dots> \<subseteq> set (logged (do_cleanup (q # ps) s))"
    using Cons.IH by simp
  finally show ?case .
qed

lemma do_cleanup_warns:
  "p \<in> set ps \<Longrightarrow> os_path_exists (files s) p \<Longrightarrow> \<not> unlinkable (files s) p
     \<Longrightarrow> Warn_delete_failed p \<in> set (logged (do_cleanup ps s))"
proof (induction ps arbitrary: s)
  case Nil
  then show ?case by simp
next
  case (Cons q ps)
  let ?s1 = "if os_path_exists (files s) q then
          (case os_unlink q (files s) of Inr fs' \<Rightarrow> s\<lparr>files := fs'\<rparr>
           | Inl e \<Rightarrow> logger (Warn_delete_failed q) s) else s"
  show ?case
  proof (cases "p = q")
    case True
    with Cons.prems have "Warn_delete_failed p \<in> set (logged ?s1)"
      by (simp add: os_unlink_cases logger_def)
    then show ?thesis using do_cleanup_logged_mono [of ?s1 ps] by auto
  next
    case False
    with Cons.prems have "p \<in> set ps" by simp
    moreover have "os_path_exists (files ?s1) p" "\<not> unlinkable (files ?s1) p"
      using Cons.prems False
      by (auto simp: os_unlink_cases logger_def os_path_exists_def map_of_delete unlinkable_delete)
    ultimately show ?thesis using Cons.IH [of ?s1] by simp
  qed
qed

lemma do_cleanup_noop:
  "\<forall>p\<in>set ps. \<not> os_path_exists (files s) p \<Longrightarrow> do_cleanup ps s = s"
  by (induction ps arbitrary: s) auto

lemma do_cleanup_files_fixed:
  "\<forall>p\<in>set ps. \<not> unlinkable (files s) p \<Longrightarrow> files (do_cleanup ps s) = files s"
  by (induction ps arbitrary: s) (auto simp: os_unlink_cases logger_def)

text \<open>
  C8. Deferred reclamation is total and idempotent. \<^verbatim>\<open>cleanup_files\<close> returns a
  state for every list of paths (no exception leaves the loop). With delay zero
  the work is done before it returns: no thread is started, the task table is
  untouched, every listed path that can be unlinked is gone and every other path
  is as before; a listed path that exists and cannot be unlinked is reported by a
  warning; when no listed path exists nothing at all changes; and running the
  same cleanup a second time changes no file. With a positive delay the call only
  starts the thread, and the thread, when it wakes on paths that do not exist,
  changes nothing either.
\<close>

theorem cleanup_files_synchronous:
  "pending (cleanup_files paths 0 s) = pending s
   \<and> task_files (cleanup_files paths 0 s) = task_files s
   \<and> (\<forall>p. map_of (files (cleanup_files paths 0 s)) p =
            (if p \<in> set paths \<and> unlinkable (files s) p then None else map_of (files s) p))
   \<and> (\<forall>p\<in>set paths. os_path_exists (files s) p \<and> \<not> unlinkable (files s) p
          \<longrightarrow> Warn_delete_failed p \<in> set (logged (cleanup_files paths 0 s)))
   \<and> ((\<forall>p\<in>set paths. \<not> os_path_exists (files s) p) \<longrightarrow> cleanup_files paths 0 s = s)
   \<and> files (cleanup_files paths 0 (cleanup_files paths 0 s)) = files (cleanup_files paths 0 s)
   \<and> (0 < delay
        \<longrightarrow> cleanup_files paths delay s = s\<lparr>pending := pending s @ [Do_cleanup paths delay]\<rparr>)
   \<and> ((\<forall>p\<in>set paths. \<not> os_path_exists (files s) p)
        \<longrightarrow> run_deferred (Do_cleanup paths delay) s = s)"
proof -
  have re: "\<forall>p\<in>set paths. \<not> unlinkable (files (do_cleanup paths s)) p"
    by (simp add: unlinkable_def do_cleanup_files)
  have now: "pending (cleanup_files paths 0 s) = pending s
   \<and> task_files (cleanup_files paths 0 s) = task_files s
   \<and> (\<forall>p. map_of (files (cleanup_files paths 0 s)) p =
            (if p \<in> set paths \<and> unlinkable (files s) p then None else map_of (files s) p))
   \<and> (\<forall>p\<in>set paths. os_path_exists (files s) p \<and> \<not> unlinkable (files s) p
          \<longrightarrow> Warn_delete_failed p \<in> set (logged (cleanup_files paths 0 s)))
   \<and> ((\<forall>p\<in>set paths. \<not> os_path_exists (files s) p) \<longrightarrow> cleanup_files paths 0 s = s)
   \<and> files (cleanup_files paths 0 (cleanup_files paths 0 s)) = files (cleanup_files paths 0 s)"
    using do_cleanup_files_fixed [OF re]
    by (simp add: cleanup_files_def do_cleanup_files do_cleanup_warns do_cleanup_noop)
  have later: "0 < delay
        \<longrightarrow> cleanup_files paths delay s = s\<lparr>pending := pending s @ [Do_cleanup paths delay]\<rparr>"
    by (simp add: cleanup_files_def)
  have woken: "(\<forall>p\<in>set paths. \<not> os_path_exists (files s) p)
        \<longrightarrow> run_deferred (Do_cleanup paths delay) s = s"
    by (simp add: do_cleanup_noop)
  from now later woken show ?thesis by blast
qed

theorem cleanup_files_synchronous_witness:
  "map_of (files (cleanup_files [''/code/data/a.mp3'', ''/code/data/gone'', ''/code/data/temp''] 0
                    (init example_disk))) ''/code/data/a.mp3'' = None
   \<and> map_of (files (cleanup_files [''/code/data/a.mp3'', ''/code/data/gone'', ''/code/data/temp''] 0
                    (init example_disk))) ''/code/data/temp'' = Some Dir
   \<and> Warn_delete_failed ''/code/data/temp''
        \<in> set (logged (cleanup_files [''/code/data/a.mp3'', ''/code/data/gone'', ''/code/data/temp''] 0
                    (init example_disk)))
   \<and> cleanup_files [''/code/data/gone''] 0 (init example_disk) = init example_disk"
  using cleanup_files_synchronous
          [where paths = "[''/code/data/a.mp3'', ''/code/data/gone'', ''/code/data/temp'']"
             and s = "init example_disk" and delay = 60]
        cleanup_files_synchronous
          [where paths = "[''/code/data/gone'']" and s = "init example_disk" and delay = 60]
  by (simp add: init_def example_disk_def unlinkable_def os_path_exists_def)

subsection \<open>The cleanup pass\<close>

lemma sweep_file_task_files [simp]:
  "task_files (fst (sweep_file cfg now active p (s, st))) = task_files s"
  by (auto simp: sweep_file_def logger_def Let_def split: option.splits entry.splits sum.splits)

lemma sweep_file_pending [simp]:
  "pending (fst (sweep_file cfg now active p (s, st))) = pending s"
  by (auto simp: sweep_file_def logger_def Let_def split: option.splits entry.splits sum.splits)

lemma sweep_file_files:
  "files (fst (sweep_file cfg now active p (s, st))) =
     (if doomed cfg now active (files s) p \<and> unlinkable (files s) p
      then AList.delete p (files s) else files s)"
  by (auto simp: sweep_file_def doomed_def unlinkable_def os_unlink_def logger_def Let_def
           split: option.splits entry.splits)

lemma sweep_file_orphans:
  "orphan_files (snd (sweep_file cfg now active p (s, st))) =
     orphan_files st + (if posix_str p \<notin> active \<and> doomed cfg now active (files s) p then 1 else 0)"
  by (auto simp: sweep_file_def doomed_def os_unlink_def logger_def Let_def
           split: option.splits entry.splits)

lemma sweep_file_logged:
  "set (logged (fst (sweep_file cfg now active p (s, st)))) =
     set (logged s) \<union> (if doomed cfg now active (files s) p \<and> \<not> unlinkable (files s) p
                          then {Warn_sweep_delete_failed p} else {})"
  by (auto simp: sweep_file_def doomed_def unlinkable_def os_unlink_def logger_def Let_def
           split: option.splits entry.splits)

lemma doomed_delete:
  "doomed cfg now active (AList.delete q fs) p \<longleftrightarrow> p \<noteq> q \<and> doomed cfg now active fs p"
  by (auto simp: doomed_def map_of_delete)

lemma sweep_fold_task_files [simp]:
  "task_files (fst (fold (sweep_file cfg now active) ps (s, st))) = task_files s"
proof (induction ps arbitrary: s st)
  case Nil
  show ?case by simp
next
  case (Cons q ps)
  obtain s1 st1 where step: "sweep_file cfg now active q (s, st) = (s1, st1)"
    by (cases "sweep_file cfg now active q (s, st)")
  have "task_files s1 = task_files s"
    using sweep_file_task_files [of cfg now active q s st] step by simp
  then show ?case using Cons.IH [of s1 st1] step by simp
qed

lemma sweep_fold_pending [simp]:
  "pending (fst (fold (sweep_file cfg now active) ps (s, st))) = pending s"
proof (induction ps arbitrary: s st)
  case Nil
  show ?case by simp
next
  case (Cons q ps)
  obtain s1 st1 where step: "sweep_file cfg now active q (s, st) = (s1, st1)"
    by (cases "sweep_file cfg now active q (s, st)")
  have "pending s1 = pending s"
    using sweep_file_pending [of cfg now active q s st] step by simp
  then show ?case using Cons.IH [of s1 st1] step by simp
qed

lemma sweep_fold_files:
  "map_of (files (fst (fold (sweep_file cfg now active) ps (s, st)))) p =
     (if p \<in> set ps \<and> doomed cfg now active (files s) p \<and> unlinkable (files s) p
      then None else map_of (files s) p)"
proof (induction ps arbitrary: s st)
  case Nil
  show ?case by simp
next
  case (Cons q ps)
  obtain s1 st1 where step: "sweep_file cfg now active q (s, st) = (s1, st1)"
    by (cases "sweep_file cfg now active q (s, st)")
  have f1: "files s1 = (if doomed cfg now active (files s) q \<and> unlinkable (files s) q
                        then AList.delete q (files s) else files s)"
    using sweep_file_files [of cfg now active q s st] step by simp
  have "map_of (files (fst (fold (sweep_file cfg now active) (q # ps) (s, st)))) p =
        (if p \<in> set ps \<and> doomed cfg now active (files s1) p \<and> unlinkable (files s1) p
         then None else map_of (files s1) p)"
    using Cons.IH [of s1 st1] step by simp
  also have "\<dots> = (if p \<in> set (q # ps) \<and> doomed cfg now active (files s) p \<and> unlinkable (files s) p
      then None else map_of (files s) p)"
    by (auto simp: f1 doomed_delete unlinkable_delete map_of_delete)
  finally show ?case .
qed

lemma sweep_fold_orphans:
  "distinct ps \<Longrightarrow>
   orphan_files (snd (fold (sweep_file cfg now active) ps (s, st))) =
     orphan_files st + length (filter (\<lambda>p. posix_str p \<notin> active \<and> doomed cfg now active (files s) p) ps)"
proof (induction ps arbitrary: s st)
  case Nil
  show ?case by simp
next
  case (Cons q ps)
  obtain s1 st1 where step: "sweep_file cfg now active q (s, st) = (s1, st1)"
    by (cases "sweep_file cfg now active q (s, st)")
  have f1: "files s1 = (if doomed cfg now active (files s) q \<and> unlinkable (files s) q
                        then AList.delete q (files s) else files s)"
    using sweep_file_files [of cfg now active q s st] step by simp
  have o1: "orphan_files st1 =
      orphan_files st + (if posix_str q \<notin> active \<and> doomed cfg now active (files s) q then 1 else 0)"
    using sweep_file_orphans [of cfg now active q s st] step by simp
  have same: "\<And>p. p \<in> set ps \<Longrightarrow>
      doomed cfg now active (files s1) p = doomed cfg now active (files s) p"
    using Cons.prems by (auto simp: f1 doomed_delete)
  have "filter (\<lambda>p. posix_str p \<notin> active \<and> doomed cfg now active (files s1) p) ps =
        filter (\<lambda>p. posix_str p \<notin> active \<and> doomed cfg now active (files s) p) ps"
    by (rule filter_cong) (auto simp: same)
  then show ?case
    using Cons.IH [of s1 st1] Cons.prems step o1 by simp
qed

lemma sweep_fold_logged:
  "set (logged (fst (fold (sweep_file cfg now active) ps (s, st)))) \<supseteq>
     set (logged s) \<union> {Warn_sweep_delete_failed p | p.
        p \<in> set ps \<and> doomed cfg now active (files s) p \<and> \<not> unlinkable (files s) p}"
proof (induction ps arbitrary: s st)
  case Nil
  show ?case by simp
next
  case (Cons q ps)
  obtain s1 st1 where step: "sweep_file cfg now active q (s, st) = (s1, st1)"
    by (cases "sweep_file cfg now active q (s, st)")
  have f1: "files s1 = (if doomed cfg now active (files s) q \<and> unlinkable (files s) q
                        then AList.delete q (files s) else files s)"
    using sweep_file_files [of cfg now active q s st] step by simp
  have l1: "set (logged s1) = set (logged s) \<union>
       (if doomed cfg now active (files s) q \<and> \<not> unlinkable (files s) q
        then {Warn_sweep_delete_failed q} else {})"
    using sweep_file_logged [of cfg now active q s st] step by simp
  have keep: "\<And>p. doomed cfg now active (files s) p \<Longrightarrow> \<not> unlinkable (files s) p \<Longrightarrow>
      doomed cfg now active (files s1) p \<and> \<not> unlinkable (files s1) p"
    by (auto simp: f1 doomed_delete unlinkable_delete)
  show ?case
    using Cons.IH [of s1 st1] step l1 keep by auto
qed

lemma pop_expired_step:
  "pop_expired (c # codes) acc =
     pop_expired codes ((fst acc)\<lparr>task_files := AList.delete c (task_files (fst acc))\<rparr>,
                        (snd acc)\<lparr>expired_tasks := expired_tasks (snd acc) + 1\<rparr>)"
  by (simp add: pop_expired_def case_prod_beta)

lemma pop_expired_Nil [simp]: "pop_expired [] acc = acc"
  by (simp add: pop_expired_def)

lemma pop_expired_files [simp]: "files (fst (pop_expired codes acc)) = files (fst acc)"
  by (induction codes arbitrary: acc) (simp_all add: pop_expired_step)

lemma pop_expired_logged [simp]: "logged (fst (pop_expired codes acc)) = logged (fst acc)"
  by (induction codes arbitrary: acc) (simp_all add: pop_expired_step)

lemma pop_expired_pending [simp]: "pending (fst (pop_expired codes acc)) = pending (fst acc)"
  by (induction codes arbitrary: acc) (simp_all add: pop_expired_step)

lemma pop_expired_orphans [simp]:
  "orphan_files (snd (pop_expired codes acc)) = orphan_files (snd acc)"
  by (induction codes arbitrary: acc) (simp_all add: pop_expired_step)

lemma pop_expired_task_files:
  "map_of (task_files (fst (pop_expired codes acc))) c =
     (if c \<in> set codes then None else map_of (task_files (fst acc)) c)"
  by (induction codes arbitrary: acc) (auto simp: pop_expired_step map_of_delete)

lemma set_delete_subset: "set (AList.delete c al) \<subseteq> set al"
  by (auto simp: AList.delete_eq)

lemma pop_expired_task_files_subset:
  "set (task_files (fst (pop_expired codes acc))) \<subseteq> set (task_files (fst acc))"
proof (induction codes arbitrary: acc)
  case Nil
  show ?case by simp
next
  case (Cons c codes)
  show ?case
    using Cons.IH [of "((fst acc)\<lparr>task_files := AList.delete c (task_files (fst acc))\<rparr>,
                        (snd acc)\<lparr>expired_tasks := expired_tasks (snd acc) + 1\<rparr>)"]
          set_delete_subset [of c "task_files (fst acc)"]
    by (auto simp: pop_expired_step)
qed

lemma periodic_cleanup_files_eq:
  "files (snd (periodic_cleanup cfg now s)) =
     files (fst (fold (sweep_file cfg now (active_files (task_files s)))
                   (iterdir (DUIX_DATA_DIR cfg) (files s))
                   (s, \<lparr>orphan_files = 0, old_files = 0, expired_tasks = 0\<rparr>)))"
  by (simp add: periodic_cleanup_def Let_def logger_def case_prod_beta)

lemma periodic_cleanup_pending [simp]:
  "pending (snd (periodic_cleanup cfg now s)) = pending s"
  by (simp add: periodic_cleanup_def Let_def logger_def case_prod_beta)

lemma periodic_cleanup_orphans_eq:
  "orphan_files (fst (periodic_cleanup cfg now s)) =
     orphan_files (snd (fold (sweep_file cfg now (active_files (task_files s)))
                   (iterdir (DUIX_DATA_DIR cfg) (files s))
                   (s, \<lparr>orphan_files = 0, old_files = 0, expired_tasks = 0\<rparr>)))"
  by (simp add: periodic_cleanup_def Let_def logger_def case_prod_beta)

lemma periodic_cleanup_logged_sup:
  "set (logged (fst (fold (sweep_file cfg now (active_files (task_files s)))
                   (iterdir (DUIX_DATA_DIR cfg) (files s))
                   (s, \<lparr>orphan_files = 0, old_files = 0, expired_tasks = 0\<rparr>))))
   \<subseteq> set (logged (snd (periodic_cleanup cfg now s)))"
  by (auto simp: periodic_cleanup_def Let_def logger_def case_prod_beta)

lemma set_iterdir: "set (iterdir d fs) = {p \<in> fst ` set fs. is_child d p}"
  by (auto simp: iterdir_def)

lemma distinct_iterdir [simp]: "distinct (iterdir d fs)"
  by (simp add: iterdir_def)

lemma in_iterdir:
  "p \<in> set (iterdir d fs) \<longleftrightarrow> map_of fs p \<noteq> None \<and> is_child d p"
  by (auto simp: set_iterdir map_of_eq_None_iff)

lemma periodic_cleanup_files:
  "map_of (files (snd (periodic_cleanup cfg now s))) p =
     (if is_child (DUIX_DATA_DIR cfg) p
         \<and> doomed cfg now (active_files (task_files s)) (files s) p \<and> unlinkable (files s) p
      then None else map_of (files s) p)"
  by (auto simp: periodic_cleanup_files_eq sweep_fold_files in_iterdir unlinkable_def
           split: option.splits)

lemma add_task_files_eq: "add_task_files ti acc = acc \<union> (task_paths ti - {[]})"
  by (auto simp: add_task_files_def task_paths_def split: option.splits)

lemma fold_add_task_files:
  "fold (\<lambda>(task_code, ti) acc. add_task_files ti acc) tf A =
     A \<union> (\<Union>(c, ti)\<in>set tf. task_paths ti - {[]})"
  by (induction tf arbitrary: A) (auto simp: add_task_files_eq)

lemma active_files_eq: "active_files tf = (\<Union>(c, ti)\<in>set tf. task_paths ti - {[]})"
  by (simp add: active_files_def fold_add_task_files)

text \<open>
  C1. The pass is meant to spare every file named in the active set unless the file
  is older than \<open>MAX_FILE_AGE\<close>. The code looks up \<^verbatim>\<open>str(file_path)\<close>, which
  \<^verbatim>\<open>pathlib\<close> prints in its normal form, in a set of strings made by
  \<^verbatim>\<open>os.path.join\<close>; the two differ as soon as the configured directory is not in
  that normal form. With \<^verbatim>\<open>DUIX_DATA_DIR = ./data\<close>: after one submission the record
  \<^verbatim>\<open>job1\<close> names \<^verbatim>\<open>./data/a.mp3\<close>, the path is in the active set, and the file is
  1000 seconds old, within \<open>MAX_FILE_AGE = 7200\<close>; the pass lists it as
  \<^verbatim>\<open>data/a.mp3\<close>, which is not in the set, and removes it as an orphan, while the
  record stays.
\<close>

theorem active_file_swept_under_relative_directory:
  "map_of (task_files example_relative) ''job1'' =
      Some \<lparr>audio_local = ''./data/a.mp3'', video_local = ''./data/b.mp4'',
            created_time = 5, result_file = None, result_retrieved_time = None\<rparr>
   \<and> ''./data/a.mp3'' \<in> active_files (task_files example_relative)
   \<and> map_of (files example_relative) ''./data/a.mp3'' = Some (File 0 ''AUDIO'' False)
   \<and> \<not> (1000 - 0 > real_of_int (MAX_FILE_AGE relative_config))
   \<and> posix_str ''./data/a.mp3'' = ''data/a.mp3''
   \<and> ''data/a.mp3'' \<notin> active_files (task_files example_relative)
   \<and> map_of (files (snd (periodic_cleanup relative_config 1000 example_relative)))
        ''./data/a.mp3'' = None
   \<and> map_of (task_files (snd (periodic_cleanup relative_config 1000 example_relative))) ''job1''
        = map_of (task_files example_relative) ''job1''"
  by code_simp

text \<open>
  C3. For a regular file directly in the storage directory that is not in the active
  set (the string under which the pass lists it is not a member): after the pass it is gone exactly when its age exceeds \<open>CLEANUP_DELAY\<close> (and
  \<^verbatim>\<open>unlink\<close> did not raise); it is unchanged exactly when its age is at most
  \<open>CLEANUP_DELAY\<close> (or \<^verbatim>\<open>unlink\<close> raised, which the pass logs as a warning); and the
  counter \<open>orphan_files\<close> of the pass is the number of such files older than
  \<open>CLEANUP_DELAY\<close>.
\<close>

theorem periodic_cleanup_orphan_rule:
  assumes "is_child (DUIX_DATA_DIR cfg) p"
    and "map_of (files s) p = Some (File m c i)"
    and "posix_str p \<notin> active_files (task_files s)"
  shows "(map_of (files (snd (periodic_cleanup cfg now s))) p = None
            \<longleftrightarrow> now - m > real_of_int (CLEANUP_DELAY cfg) \<and> \<not> i)
       \<and> (map_of (files (snd (periodic_cleanup cfg now s))) p = Some (File m c i)
            \<longleftrightarrow> now - m \<le> real_of_int (CLEANUP_DELAY cfg) \<or> i)
       \<and> (now - m > real_of_int (CLEANUP_DELAY cfg) \<and> i
            \<longrightarrow> Warn_sweep_delete_failed p \<in> set (logged (snd (periodic_cleanup cfg now s))))
       \<and> orphan_files (fst (periodic_cleanup cfg now s)) =
           card {q. is_child (DUIX_DATA_DIR cfg) q \<and> posix_str q \<notin> active_files (task_files s)
                    \<and> (\<exists>m' c' i'. map_of (files s) q = Some (File m' c' i')
                          \<and> now - m' > real_of_int (CLEANUP_DELAY cfg))}"
proof -
  let ?A = "active_files (task_files s)"
  let ?l = "iterdir (DUIX_DATA_DIR cfg) (files s)"
  have fate: "map_of (files (snd (periodic_cleanup cfg now s))) p =
      (if now - m > real_of_int (CLEANUP_DELAY cfg) \<and> \<not> i then None else Some (File m c i))"
    using assms by (simp add: periodic_cleanup_files doomed_def unlinkable_def)
  have listed: "p \<in> set ?l"
    using assms by (simp add: in_iterdir)
  have warn: "now - m > real_of_int (CLEANUP_DELAY cfg) \<and> i
      \<longrightarrow> Warn_sweep_delete_failed p \<in> set (logged (snd (periodic_cleanup cfg now s)))"
  proof
    assume "now - m > real_of_int (CLEANUP_DELAY cfg) \<and> i"
    then have "doomed cfg now ?A (files s) p \<and> \<not> unlinkable (files s) p"
      using assms by (simp add: doomed_def unlinkable_def)
    then have "Warn_sweep_delete_failed p \<in> set (logged (fst (fold (sweep_file cfg now ?A) ?l
                   (s, \<lparr>orphan_files = 0, old_files = 0, expired_tasks = 0\<rparr>))))"
      using sweep_fold_logged [where s = s and cfg = cfg and now = now and active = ?A and ps = ?l]
        listed by blast
    then show "Warn_sweep_delete_failed p \<in> set (logged (snd (periodic_cleanup cfg now s)))"
      using periodic_cleanup_logged_sup [of cfg now s] by blast
  qed
  have "orphan_files (fst (periodic_cleanup cfg now s)) =
          length (filter (\<lambda>q. posix_str q \<notin> ?A \<and> doomed cfg now ?A (files s) q) ?l)"
    by (simp add: periodic_cleanup_orphans_eq sweep_fold_orphans)
  also have "\<dots> = card ({q. posix_str q \<notin> ?A \<and> doomed cfg now ?A (files s) q} \<inter> set ?l)"
    by (simp add: distinct_length_filter)
  also have "{q. posix_str q \<notin> ?A \<and> doomed cfg now ?A (files s) q} \<inter> set ?l =
      {q. is_child (DUIX_DATA_DIR cfg) q \<and> posix_str q \<notin> ?A
          \<and> (\<exists>m' c' i'. map_of (files s) q = Some (File m' c' i')
                \<and> now - m' > real_of_int (CLEANUP_DELAY cfg))}"
  proof -
    have pt: "(posix_str q \<notin> ?A \<and> doomed cfg now ?A (files s) q \<and> q \<in> set ?l) =
        (is_child (DUIX_DATA_DIR cfg) q \<and> posix_str q \<notin> ?A
          \<and> (\<exists>m' c' i'. map_of (files s) q = Some (File m' c' i')
                \<and> now - m' > real_of_int (CLEANUP_DELAY cfg)))" for q
    proof (cases "map_of (files s) q")
      case None
      then show ?thesis by (simp add: in_iterdir doomed_def)
    next
      case (Some e)
      then show ?thesis by (cases e) (auto simp: in_iterdir doomed_def)
    qed
    have "{q. posix_str q \<notin> ?A \<and> doomed cfg now ?A (files s) q} \<inter> set ?l =
          {q. posix_str q \<notin> ?A \<and> doomed cfg now ?A (files s) q \<and> q \<in> set ?l}"
      by blast
    also have "\<dots> = {q. is_child (DUIX_DATA_DIR cfg) q \<and> posix_str q \<notin> ?A
          \<and> (\<exists>m' c' i'. map_of (files s) q = Some (File m' c' i')
                \<and> now - m' > real_of_int (CLEANUP_DELAY cfg))}"
      by (rule Collect_cong) (rule pt)
    finally show ?thesis .
  qed
  finally have count: "orphan_files (fst (periodic_cleanup cfg now s)) =
      card {q. is_child (DUIX_DATA_DIR cfg) q \<and> posix_str q \<notin> ?A
          \<and> (\<exists>m' c' i'. map_of (files s) q = Some (File m' c' i')
                \<and> now - m' > real_of_int (CLEANUP_DELAY cfg))}" .
  have gone: "map_of (files (snd (periodic_cleanup cfg now s))) p = None
            \<longleftrightarrow> now - m > real_of_int (CLEANUP_DELAY cfg) \<and> \<not> i"
    by (simp add: fate)
  have kept: "map_of (files (snd (periodic_cleanup cfg now s))) p = Some (File m c i)
            \<longleftrightarrow> now - m \<le> real_of_int (CLEANUP_DELAY cfg) \<or> i"
    by (auto simp: fate)
  show ?thesis
    using gone kept warn count by blast
qed

theorem periodic_cleanup_orphan_rule_witness:
  "map_of (files (snd (periodic_cleanup scenario_config 10 scenario_untracked)))
      ''/code/data/untracked.bin'' = Some (File 10 ''U'' False)
   \<and> map_of (files (snd (periodic_cleanup scenario_config 12 scenario_untracked)))
      ''/code/data/untracked.bin'' = None
   \<and> orphan_files (fst (periodic_cleanup scenario_config 12 scenario_untracked)) = 1"
proof -
  have a: "is_child (DUIX_DATA_DIR scenario_config) ''/code/data/untracked.bin''"
    by code_simp
  have b: "map_of (files scenario_untracked) ''/code/data/untracked.bin'' = Some (File 10 ''U'' False)"
    by (simp add: scenario_untracked_def init_def)
  have c: "posix_str ''/code/data/untracked.bin'' \<notin> active_files (task_files scenario_untracked)"
    by code_simp
  have d: "real_of_int (CLEANUP_DELAY scenario_config) = 1"
    by (simp add: scenario_config_def)
  have e: "orphan_files (fst (periodic_cleanup scenario_config 12 scenario_untracked)) = 1"
    by code_simp
  show ?thesis
    using periodic_cleanup_orphan_rule [OF a b c, of 10] periodic_cleanup_orphan_rule [OF a b c, of 12]
    by (simp add: d e)
qed

subsection \<open>Downloads and submissions\<close>

lemma map_of_update: "map_of (AList.update k v al) = (map_of al)(k \<mapsto> v)"
  by (rule ext) (simp add: AList.update_conv')

lemma open_wb_write_cases:
  "open_wb_write p now bytes fs =
     (if open_refused fs p
      then Inl (case map_of fs p of Some Dir \<Rightarrow> IsADirectoryError | _ \<Rightarrow> PermissionError)
      else Inr (AList.update p (File now bytes False) fs))"
  by (auto simp: open_wb_write_def open_refused_def os_path_exists_def unlinkable_def
           split: option.splits entry.splits)

lemma try_download_True:
  "try_download lp now resp fs = (fs', True) \<longleftrightarrow>
     (\<exists>bytes. resp = Stream bytes True \<and> \<not> open_refused fs lp
        \<and> fs' = AList.update lp (File now bytes False) fs)"
  by (cases resp) (auto simp: try_download_def open_wb_write_cases)

lemma try_download_False:
  "try_download lp now resp fs = (fs', False) \<longleftrightarrow>
     (case resp of
        Stream bytes finished \<Rightarrow>
          (if open_refused fs lp then fs' = fs
           else \<not> finished \<and> fs' = AList.update lp (File now bytes False) fs)
      | _ \<Rightarrow> fs' = fs)"
  by (cases resp) (auto simp: try_download_def open_wb_write_cases)

lemma download_file_alt:
  "download_file cfg url ft now hex8 resp s =
     (case try_download (staged_local_path cfg url ft now hex8) now resp (files s) of
        (fs1, True) \<Rightarrow>
          (Inr (''/code/data/'' @ staged_filename url ft now hex8,
                staged_local_path cfg url ft now hex8), s\<lparr>files := fs1\<rparr>)
      | (fs1, False) \<Rightarrow>
          (Inl (HTTPException 400),
           logger Error_download
             (if os_path_exists fs1 (staged_local_path cfg url ft now hex8) then
                (case os_unlink (staged_local_path cfg url ft now hex8) fs1 of
                   Inr fs2 \<Rightarrow>
                     logger (Info_cleaned_failed_download (staged_local_path cfg url ft now hex8))
                       (s\<lparr>files := fs2\<rparr>)
                 | Inl e \<Rightarrow>
                     logger (Warn_cleanup_failed_download (staged_local_path cfg url ft now hex8))
                       (s\<lparr>files := fs1\<rparr>))
              else s\<lparr>files := fs1\<rparr>)))"
  by (simp add: download_file_def staged_local_path_def Let_def split: prod.splits bool.splits sum.splits)

lemma download_file_Inr:
  assumes "download_file cfg url ft now hex8 resp s = (Inr (cp, lp), s')"
  shows "lp = staged_local_path cfg url ft now hex8
       \<and> (\<exists>bytes. resp = Stream bytes True
             \<and> files s' = AList.update lp (File now bytes False) (files s))
       \<and> \<not> open_refused (files s) lp
       \<and> task_files s' = task_files s \<and> pending s' = pending s \<and> logged s' = logged s"
proof -
  let ?lp = "staged_local_path cfg url ft now hex8"
  obtain fs1 ok where t: "try_download ?lp now resp (files s) = (fs1, ok)"
    by (cases "try_download ?lp now resp (files s)")
  show ?thesis
  proof (cases ok)
    case True
    with assms t have "lp = ?lp" "s' = s\<lparr>files := fs1\<rparr>"
      by (simp_all add: download_file_alt)
    with t True show ?thesis by (auto simp: try_download_True)
  next
    case False
    with assms t show ?thesis
      by (simp add: download_file_alt)
  qed
qed

lemma download_file_Inl:
  assumes "download_file cfg url ft now hex8 resp s = (Inl e, s')"
  shows "e = HTTPException 400
       \<and> (\<forall>p. map_of (files s') p =
            (if p = staged_local_path cfg url ft now hex8
                  \<and> \<not> open_refused (files s) p then None else map_of (files s) p))
       \<and> (open_refused (files s) (staged_local_path cfg url ft now hex8)
            \<longrightarrow> Warn_cleanup_failed_download (staged_local_path cfg url ft now hex8)
                  \<in> set (logged s'))
       \<and> Error_download \<in> set (logged s')
       \<and> task_files s' = task_files s \<and> pending s' = pending s"
proof -
  let ?lp = "staged_local_path cfg url ft now hex8"
  obtain fs1 ok where t: "try_download ?lp now resp (files s) = (fs1, ok)"
    by (cases "try_download ?lp now resp (files s)")
  have nok: "\<not> ok"
    using assms t by (cases ok) (simp_all add: download_file_alt)
  have fs1: "fs1 = files s \<or>
     (\<not> open_refused (files s) ?lp \<and> (\<exists>bytes. fs1 = AList.update ?lp (File now bytes False) (files s)))"
    using t nok by (cases resp) (auto simp: try_download_False split: if_splits)
  have s': "s' = logger Error_download
      (if os_path_exists fs1 ?lp then
         (case os_unlink ?lp fs1 of
            Inr fs2 \<Rightarrow> logger (Info_cleaned_failed_download ?lp) (s\<lparr>files := fs2\<rparr>)
          | Inl e \<Rightarrow> logger (Warn_cleanup_failed_download ?lp) (s\<lparr>files := fs1\<rparr>))
       else s\<lparr>files := fs1\<rparr>)" and e: "e = HTTPException 400"
    using assms t nok by (simp_all add: download_file_alt)
  from fs1 show ?thesis
  proof
    assume same: "fs1 = files s"
    show ?thesis
      unfolding s' e same
      by (auto simp: os_unlink_cases logger_def map_of_delete open_refused_def
                     os_path_exists_def unlinkable_def)
  next
    assume w: "\<not> open_refused (files s) ?lp \<and>
        (\<exists>bytes. fs1 = AList.update ?lp (File now bytes False) (files s))"
    then obtain bytes where fs1': "fs1 = AList.update ?lp (File now bytes False) (files s)"
      by blast
    have u: "unlinkable fs1 ?lp" "os_path_exists fs1 ?lp"
      by (simp_all add: fs1' unlinkable_def os_path_exists_def map_of_update)
    show ?thesis
      unfolding s' e
      using w u by (auto simp: os_unlink_cases logger_def map_of_delete fs1' map_of_update)
  qed
qed

lemma staged_filename_nonempty [simp]: "staged_filename url ft now hex8 \<noteq> []"
  by (simp add: staged_filename_def Let_def)

lemma path_join_nonempty: "b \<noteq> [] \<Longrightarrow> path_join a b \<noteq> []"
  by (simp add: path_join_def)

lemma staged_local_path_nonempty [simp]: "staged_local_path cfg url ft now hex8 \<noteq> []"
  by (simp add: staged_local_path_def path_join_nonempty)

text \<open>
  C7. When \<^verbatim>\<open>download_file\<close> fails it raises \<^verbatim>\<open>HTTPException(status_code=400)\<close>, and
  before that it has removed what was at the local path: afterwards nothing is there,
  unless the removal itself failed (a directory or a file the system would not let go
  was at the path before), in which case the entry is as it was and the failure of the
  removal is in the log as a warning, not raised. No other path, no task and no
  thread is touched. The call fails exactly when the request raises, the status is
  bad, the stream breaks, or the file cannot be opened for writing.
\<close>

theorem download_file_failure:
  "(download_file cfg url ft now hex8 resp s = (Inl e, s') \<longrightarrow>
      e = HTTPException 400
      \<and> (map_of (files s') (staged_local_path cfg url ft now hex8) = None
          \<or> map_of (files s') (staged_local_path cfg url ft now hex8)
               = map_of (files s) (staged_local_path cfg url ft now hex8)
            \<and> open_refused (files s) (staged_local_path cfg url ft now hex8)
            \<and> Warn_cleanup_failed_download (staged_local_path cfg url ft now hex8)
                 \<in> set (logged s'))
      \<and> (\<forall>p. p \<noteq> staged_local_path cfg url ft now hex8
             \<longrightarrow> map_of (files s') p = map_of (files s) p)
      \<and> task_files s' = task_files s \<and> pending s' = pending s)
   \<and> ((\<exists>e s'. download_file cfg url ft now hex8 resp s = (Inl e, s')) \<longleftrightarrow>
        resp = Request_failed \<or> (\<exists>code. resp = Bad_status code)
        \<or> (\<exists>bytes. resp = Stream bytes False)
        \<or> open_refused (files s) (staged_local_path cfg url ft now hex8))"
proof -
  let ?lp = "staged_local_path cfg url ft now hex8"
  have first: "download_file cfg url ft now hex8 resp s = (Inl e, s') \<longrightarrow>
      e = HTTPException 400
      \<and> (map_of (files s') ?lp = None
          \<or> map_of (files s') ?lp = map_of (files s) ?lp \<and> open_refused (files s) ?lp
            \<and> Warn_cleanup_failed_download ?lp \<in> set (logged s'))
      \<and> (\<forall>p. p \<noteq> ?lp \<longrightarrow> map_of (files s') p = map_of (files s) p)
      \<and> task_files s' = task_files s \<and> pending s' = pending s"
  proof
    assume "download_file cfg url ft now hex8 resp s = (Inl e, s')"
    from download_file_Inl [OF this] show "e = HTTPException 400
      \<and> (map_of (files s') ?lp = None
          \<or> map_of (files s') ?lp = map_of (files s) ?lp \<and> open_refused (files s) ?lp
            \<and> Warn_cleanup_failed_download ?lp \<in> set (logged s'))
      \<and> (\<forall>p. p \<noteq> ?lp \<longrightarrow> map_of (files s') p = map_of (files s) p)
      \<and> task_files s' = task_files s \<and> pending s' = pending s"
      by (cases "open_refused (files s) ?lp") simp_all
  qed
  obtain fs1 ok where t: "try_download ?lp now resp (files s) = (fs1, ok)"
    by (cases "try_download ?lp now resp (files s)")
  have fails: "(\<exists>e s'. download_file cfg url ft now hex8 resp s = (Inl e, s')) \<longleftrightarrow> \<not> ok"
    using t by (cases ok) (simp_all add: download_file_alt)
  have "\<not> ok \<longleftrightarrow> resp = Request_failed \<or> (\<exists>code. resp = Bad_status code)
        \<or> (\<exists>bytes. resp = Stream bytes False) \<or> open_refused (files s) ?lp"
  proof (cases ok)
    case True
    with t show ?thesis by (auto simp: try_download_True)
  next
    case False
    with t show ?thesis by (cases resp) (auto simp: try_download_False split: if_splits)
  qed
  with first fails show ?thesis by blast
qed

theorem download_file_failure_witness:
  "download_file default_config ''/media/b.mp4'' ''video'' 1 ''deadbeef'' (Stream ''VID'' False)
     (init [])
   = (Inl (HTTPException 400),
      \<lparr>task_files = [], files = [], pending = [],
       logged = [Info_cleaned_failed_download ''/code/data/b.mp4'', Error_download]\<rparr>)
   \<and> map_of (files (snd (download_file default_config ''/media/b.mp4'' ''video'' 1 ''deadbeef''
                            (Stream ''VID'' False) (init []))))
        (staged_local_path default_config ''/media/b.mp4'' ''video'' 1 ''deadbeef'') = None"
proof -
  have run: "download_file default_config ''/media/b.mp4'' ''video'' 1 ''deadbeef''
      (Stream ''VID'' False) (init [])
   = (Inl (HTTPException 400),
      \<lparr>task_files = [], files = [], pending = [],
       logged = [Info_cleaned_failed_download ''/code/data/b.mp4'', Error_download]\<rparr>)"
    by code_simp
  have nr: "\<not> open_refused (files (init [])) p" for p
    by (simp add: open_refused_def os_path_exists_def init_def)
  show ?thesis
    using download_file_failure
      [where cfg = default_config and url = "''/media/b.mp4''" and ft = "''video''" and now = 1
         and ?hex8.0 = "''deadbeef''" and resp = "Stream ''VID'' False" and s = "init []"
         and e = "HTTPException 400"
         and s' = "\<lparr>task_files = [], files = [], pending = [],
              logged = [Info_cleaned_failed_download ''/code/data/b.mp4'', Error_download]\<rparr>"]
    by (simp add: run nr)
qed

lemma submit_except_fst [simp]: "fst (submit_except a v c s) = Inl (HTTPException 500)"
  by (simp add: submit_except_def Let_def)

lemma submit_except_pending [simp]: "pending (snd (submit_except a v c s)) = pending s"
  by (simp add: submit_except_def Let_def logger_def cleanup_files_def
           del: do_cleanup.simps split: option.splits)

lemma submit_except_task_files:
  "set (task_files (snd (submit_except a v c s))) \<subseteq> set (task_files s)"
  using set_delete_subset [of _ "task_files s"]
  by (simp add: submit_except_def Let_def logger_def cleanup_files_def
           del: do_cleanup.simps split: option.splits)

lemma submit_except_code:
  "code \<noteq> [] \<Longrightarrow> map_of (task_files (snd (submit_except a v (Some code) s))) code = None"
  by (simp add: submit_except_def Let_def logger_def map_of_delete)

lemma submit_except_files:
  "map_of (files (snd (submit_except a v c s))) p =
     (if (a = Some p \<or> v = Some p) \<and> p \<noteq> [] \<and> unlinkable (files s) p then None
      else map_of (files s) p)"
  by (cases a; cases v)
     (auto simp add: submit_except_def Let_def logger_def cleanup_files_def do_cleanup_files
           simp del: do_cleanup.simps split: option.splits)

lemma unlinkable_update:
  "unlinkable (AList.update q (File now bytes False) fs) p \<longleftrightarrow> p = q \<or> unlinkable fs p"
  by (simp add: unlinkable_def map_of_update)

text \<open>
  C6. When \<^verbatim>\<open>submit_task\<close> fails it raises \<^verbatim>\<open>HTTPException(status_code=500)\<close>; the
  task table has gained no record; no thread was started (the cleanup ran before the
  error left the call); if the audio download had succeeded, its file is gone; if the
  video download had succeeded as well (so the engine refused or could not be reached),
  its file is gone too and no record is left under the identifier of the submission.
\<close>

theorem submit_task_failure:
  assumes "submit_task cfg audio_url video_url env s = (Inl e, s')"
  shows "e = HTTPException 500
       \<and> set (task_files s') \<subseteq> set (task_files s)
       \<and> pending s' = pending s
       \<and> (\<forall>cp lp s1.
             download_file cfg audio_url ''audio'' (audio_now env) (audio_hex env)
               (audio_resp env) s = (Inr (cp, lp), s1)
             \<longrightarrow> map_of (files s') lp = None
               \<and> (\<forall>cp2 lp2 s2.
                     download_file cfg video_url ''video'' (video_now env) (video_hex env)
                       (video_resp env) s1 = (Inr (cp2, lp2), s2)
                     \<longrightarrow> map_of (files s') lp2 = None
                       \<and> (new_code env \<noteq> [] \<longrightarrow> map_of (task_files s') (new_code env) = None)))"
proof -
  obtain r1 s1 where d1: "download_file cfg audio_url ''audio'' (audio_now env) (audio_hex env)
      (audio_resp env) s = (r1, s1)"
    by (cases "download_file cfg audio_url ''audio'' (audio_now env) (audio_hex env)
      (audio_resp env) s")
  show ?thesis
  proof (cases r1)
    case (Inl e1)
    with assms d1 have res: "submit_except None None None s1 = (Inl e, s')"
      by (simp add: submit_task_def)
    have s': "s' = snd (submit_except None None None s1)" and e: "e = HTTPException 500"
      using res submit_except_fst [of None None None s1] by simp_all
    have same: "task_files s1 = task_files s" "pending s1 = pending s"
      using download_file_Inl d1 Inl by blast+
    show ?thesis
      using submit_except_task_files [of None None None s1] d1 Inl
      by (simp add: s' e same)
  next
    case (Inr pair)
    obtain cp lp where pair: "pair = (cp, lp)" by (cases pair)
    have d1': "download_file cfg audio_url ''audio'' (audio_now env) (audio_hex env)
      (audio_resp env) s = (Inr (cp, lp), s1)"
      using d1 Inr pair by simp
    from download_file_Inr [OF d1'] obtain bytes where
      lp: "lp = staged_local_path cfg audio_url ''audio'' (audio_now env) (audio_hex env)"
      and f1: "files s1 = AList.update lp (File (audio_now env) bytes False) (files s)"
      and same1: "task_files s1 = task_files s" "pending s1 = pending s"
      by blast
    have lp_ne: "lp \<noteq> []" by (simp add: lp)
    have u1: "unlinkable (files s1) lp"
      by (simp add: f1 unlinkable_update)
    obtain r2 s2 where d2: "download_file cfg video_url ''video'' (video_now env) (video_hex env)
      (video_resp env) s1 = (r2, s2)"
      by (cases "download_file cfg video_url ''video'' (video_now env) (video_hex env)
      (video_resp env) s1")
    show ?thesis
    proof (cases r2)
      case (Inl e2)
      with assms d1' d2 have res: "submit_except (Some lp) None None s2 = (Inl e, s')"
        by (simp add: submit_task_def)
      have s': "s' = snd (submit_except (Some lp) None None s2)" and e: "e = HTTPException 500"
        using res submit_except_fst [of "Some lp" None None s2] by simp_all
      have d2': "download_file cfg video_url ''video'' (video_now env) (video_hex env)
          (video_resp env) s1 = (Inl e2, s2)"
        using d2 Inl by simp
      note i2 = download_file_Inl [OF d2']
      have same2: "task_files s2 = task_files s1" "pending s2 = pending s1"
        using i2 by blast+
      have "map_of (files s2) lp = None \<or> unlinkable (files s2) lp"
        using i2 u1 by (auto simp: unlinkable_def open_refused_def)
      then have gone: "map_of (files s') lp = None"
        using lp_ne by (auto simp: s' submit_except_files)
      show ?thesis
        using submit_except_task_files [of "Some lp" None None s2] d1' d2' gone
        by (simp add: s' e same1 same2)
    next
      case (Inr pair2)
      obtain cp2 lp2 where pair2: "pair2 = (cp2, lp2)" by (cases pair2)
      have d2': "download_file cfg video_url ''video'' (video_now env) (video_hex env)
          (video_resp env) s1 = (Inr (cp2, lp2), s2)"
        using d2 Inr pair2 by simp
      from download_file_Inr [OF d2'] obtain bytes2 where
        lp2: "lp2 = staged_local_path cfg video_url ''video'' (video_now env) (video_hex env)"
        and f2: "files s2 = AList.update lp2 (File (video_now env) bytes2 False) (files s1)"
        and same2: "task_files s2 = task_files s1" "pending s2 = pending s1"
        by blast
      have lp2_ne: "lp2 \<noteq> []" by (simp add: lp2)
      have u2: "unlinkable (files s2) lp" "unlinkable (files s2) lp2"
        using u1 by (simp_all add: f2 unlinkable_update)
      have rejected: "engine env \<noteq> Reply 200 (Some 10000)"
        using assms d1' d2' by (auto simp: submit_task_def Let_def)
      then have res: "submit_except (Some lp) (Some lp2) (Some (new_code env)) s2 = (Inl e, s')"
        using assms d1' d2' by (simp add: submit_task_def Let_def)
      have s': "s' = snd (submit_except (Some lp) (Some lp2) (Some (new_code env)) s2)"
        and e: "e = HTTPException 500"
        using res submit_except_fst [of "Some lp" "Some lp2" "Some (new_code env)" s2]
        by simp_all
      have gone: "map_of (files s') lp = None" "map_of (files s') lp2 = None"
        using u2 lp_ne lp2_ne by (simp_all add: s' submit_except_files)
      have popped: "new_code env \<noteq> [] \<longrightarrow> map_of (task_files s') (new_code env) = None"
        by (simp add: s' submit_except_code)
      show ?thesis
        using submit_except_task_files [of "Some lp" "Some lp2" "Some (new_code env)" s2]
              d1' d2' gone popped
        by (simp add: s' e same1 same2)
    qed
  qed
qed

theorem submit_task_failure_witness:
  "fst (submit_task default_config ''/media/a.mp3'' ''/media/b.mp4'' example_broken_env (init []))
     = Inl (HTTPException 500)
   \<and> map_of (files (snd (submit_task default_config ''/media/a.mp3'' ''/media/b.mp4''
                            example_broken_env (init [])))) ''/code/data/a.mp3'' = None
   \<and> task_files (snd (submit_task default_config ''/media/a.mp3'' ''/media/b.mp4''
                            example_broken_env (init []))) = []
   \<and> map_of (files (snd (submit_task default_config ''/media/a.mp3'' ''/media/b.mp4''
                            example_rejected_env (init [])))) ''/code/data/a.mp3'' = None
   \<and> map_of (files (snd (submit_task default_config ''/media/a.mp3'' ''/media/b.mp4''
                            example_rejected_env (init [])))) ''/code/data/b.mp4'' = None
   \<and> map_of (task_files (snd (submit_task default_config ''/media/a.mp3'' ''/media/b.mp4''
                            example_rejected_env (init [])))) ''job1'' = None"
proof -
  let ?s' = "\<lparr>task_files = [], files = [], pending = [],
       logged = [Info_cleaned_failed_download ''/code/data/b.mp4'', Error_download, Error_submit]\<rparr>"
  let ?s1 = "\<lparr>task_files = [], files = [(''/code/data/a.mp3'', File 0 ''AUDIO'' False)],
          pending = [], logged = []\<rparr>"
  let ?s2 = "\<lparr>task_files = [], files = [(''/code/data/a.mp3'', File 0 ''AUDIO'' False),
              (''/code/data/b.mp4'', File 1 ''VIDEO'' False)],
          pending = [], logged = []\<rparr>"
  let ?t' = "\<lparr>task_files = [], files = [], pending = [], logged = [Error_submit]\<rparr>"
  have r: "submit_task default_config ''/media/a.mp3'' ''/media/b.mp4'' example_broken_env (init [])
      = (Inl (HTTPException 500), ?s')"
    by code_simp
  have d: "download_file default_config ''/media/a.mp3'' ''audio'' (audio_now example_broken_env)
      (audio_hex example_broken_env) (audio_resp example_broken_env) (init [])
      = (Inr (''/code/data/a.mp3'', ''/code/data/a.mp3''), ?s1)"
    by code_simp
  have r2: "submit_task default_config ''/media/a.mp3'' ''/media/b.mp4'' example_rejected_env (init [])
      = (Inl (HTTPException 500), ?t')"
    by code_simp
  have d2: "download_file default_config ''/media/a.mp3'' ''audio'' (audio_now example_rejected_env)
      (audio_hex example_rejected_env) (audio_resp example_rejected_env) (init [])
      = (Inr (''/code/data/a.mp3'', ''/code/data/a.mp3''), ?s1)"
    "download_file default_config ''/media/b.mp4'' ''video'' (video_now example_rejected_env)
      (video_hex example_rejected_env) (video_resp example_rejected_env) ?s1
      = (Inr (''/code/data/b.mp4'', ''/code/data/b.mp4''), ?s2)"
    by code_simp+
  have c: "new_code example_rejected_env = ''job1''"
    by (simp add: example_rejected_env_def example_env_def)
  show ?thesis
    using submit_task_failure [OF r] d submit_task_failure [OF r2] d2
    by (simp add: r r2 c)
qed

subsection \<open>Result fetch\<close>

text \<open>
  C9. When \<^verbatim>\<open>get_result\<close> is given an identifier that is not in the task table and
  the result file is there, the call returns the bytes of the file and their number;
  the task table is as before; no file other than the result file is touched; with a
  positive \<open>CLEANUP_DELAY\<close> the only cleanup thread started holds the result path
  alone (no input file), followed by the thread that will pop the identifier; and the
  unknown identifier is logged as a warning.
\<close>

theorem get_result_unknown_task:
  assumes "map_of (task_files s) code = None"
    and "map_of (files s) (path_join (path_join (DUIX_DATA_DIR cfg) ''temp'') result_filename)
           = Some (File m video_data i)"
  shows "fst (get_result cfg result_filename (Some code) now s) = Inr (video_data, length video_data)
       \<and> task_files (snd (get_result cfg result_filename (Some code) now s)) = task_files s
       \<and> (\<forall>p. p \<noteq> path_join (path_join (DUIX_DATA_DIR cfg) ''temp'') result_filename
             \<longrightarrow> map_of (files (snd (get_result cfg result_filename (Some code) now s))) p
                   = map_of (files s) p)
       \<and> (CLEANUP_DELAY cfg > 0
             \<longrightarrow> files (snd (get_result cfg result_filename (Some code) now s)) = files s
               \<and> pending (snd (get_result cfg result_filename (Some code) now s))
                   = pending s
                     @ Do_cleanup [path_join (path_join (DUIX_DATA_DIR cfg) ''temp'') result_filename]
                         (CLEANUP_DELAY cfg)
                     # (if code \<noteq> [] then [Cleanup_task_mapping code] else []))
       \<and> (code \<noteq> []
             \<longrightarrow> Warn_unknown_task code
                   \<in> set (logged (snd (get_result cfg result_filename (Some code) now s))))"
proof -
  define out where "out = path_join (path_join (DUIX_DATA_DIR cfg) ''temp'') result_filename"
  define s1 where "s1 = (if code \<noteq> [] then logger (Warn_unknown_task code) s else s)"
  define s2 where "s2 = cleanup_files [out] (CLEANUP_DELAY cfg) s1"
  define s3 where "s3 = (if code \<noteq> [] then schedule_task_cleanup code s2 else s2)"
  have r: "get_result cfg result_filename (Some code) now s =
      (Inr (video_data, length video_data), s3)"
    using assms by (simp add: get_result_def Let_def s3_def s2_def s1_def out_def)
  have f1: "files s1 = files s" "task_files s1 = task_files s" "pending s1 = pending s"
    by (simp_all add: s1_def logger_def)
  have l1: "code \<noteq> [] \<longrightarrow> Warn_unknown_task code \<in> set (logged s1)"
    by (simp add: s1_def logger_def)
  have f3: "files s3 = files s2" "task_files s3 = task_files s2" "logged s3 = logged s2"
    "pending s3 = pending s2 @ (if code \<noteq> [] then [Cleanup_task_mapping code] else [])"
    by (simp_all add: s3_def schedule_task_cleanup_def)
  have t2: "task_files s2 = task_files s1"
    by (simp add: s2_def cleanup_files_def del: do_cleanup.simps)
  have m2: "p \<noteq> out \<longrightarrow> map_of (files s2) p = map_of (files s1) p" for p
    by (simp add: s2_def cleanup_files_def do_cleanup_files del: do_cleanup.simps)
  have l2: "set (logged s1) \<subseteq> set (logged s2)"
    using do_cleanup_logged_mono [of s1 "[out]"]
    by (simp add: s2_def cleanup_files_def del: do_cleanup.simps)
  have p2: "CLEANUP_DELAY cfg > 0 \<longrightarrow> files s2 = files s1
      \<and> pending s2 = pending s1 @ [Do_cleanup [out] (CLEANUP_DELAY cfg)]"
    by (simp add: s2_def cleanup_files_def)
  have "fst (get_result cfg result_filename (Some code) now s) = Inr (video_data, length video_data)"
    by (simp add: r)
  moreover have "task_files s3 = task_files s"
    by (simp add: f3 t2 f1)
  moreover have "\<forall>p. p \<noteq> out \<longrightarrow> map_of (files s3) p = map_of (files s) p"
    using m2 by (simp add: f3 f1)
  moreover have "CLEANUP_DELAY cfg > 0 \<longrightarrow> files s3 = files s
      \<and> pending s3 = pending s @ Do_cleanup [out] (CLEANUP_DELAY cfg)
           # (if code \<noteq> [] then [Cleanup_task_mapping code] else [])"
    using p2 by (simp add: f3 f1)
  moreover have "code \<noteq> [] \<longrightarrow> Warn_unknown_task code \<in> set (logged s3)"
    using l1 l2 by (auto simp: f3)
  ultimately show ?thesis
    unfolding r out_def [symmetric] by simp
qed

theorem get_result_unknown_task_witness:
  "get_result default_config ''out.mp4'' (Some ''ghost'') 200 example_service
     = (Inr (''RESULT'', 6),
        example_service
          \<lparr>pending := [Do_cleanup [''/code/data/temp/out.mp4''] 60, Cleanup_task_mapping ''ghost''],
           logged := [Warn_unknown_task ''ghost'']\<rparr>)
   \<and> task_files (snd (get_result default_config ''out.mp4'' (Some ''ghost'') 200 example_service))
       = task_files example_service"
proof -
  have a: "map_of (task_files example_service) ''ghost'' = None"
    by code_simp
  have b: "map_of (files example_service)
        (path_join (path_join (DUIX_DATA_DIR default_config) ''temp'') ''out.mp4'')
      = Some (File 150 ''RESULT'' False)"
    by code_simp
  have c: "get_result default_config ''out.mp4'' (Some ''ghost'') 200 example_service
     = (Inr (''RESULT'', 6),
        example_service
          \<lparr>pending := [Do_cleanup [''/code/data/temp/out.mp4''] 60, Cleanup_task_mapping ''ghost''],
           logged := [Warn_unknown_task ''ghost'']\<rparr>)"
    by code_simp
  show ?thesis
    using get_result_unknown_task [OF a b, of 200] by (simp add: c)
qed

subsection \<open>The task table along a run\<close>

lemma shrinks_refl [simp]: "shrinks tf tf"
  by (simp add: shrinks_def)

lemma shrinks_delete [simp]: "shrinks tf (AList.delete c tf)"
  using set_delete_subset [of c tf] by (simp add: shrinks_def distinct_delete)

lemma shrinks_trans: "shrinks a b \<Longrightarrow> shrinks b c \<Longrightarrow> shrinks a c"
  by (auto simp: shrinks_def)

lemma set_update_subset: "set (AList.update k v al) \<subseteq> insert (k, v) (set al)"
  by (induction al) auto

lemma download_file_task_files [simp]:
  "task_files (snd (download_file cfg url ft now hex8 resp s)) = task_files s"
  by (simp add: download_file_alt logger_def split: prod.splits bool.splits sum.splits)

lemma download_file_fst_Inr:
  "fst (download_file cfg url ft now hex8 resp s) = Inr (cp, lp)
     \<Longrightarrow> lp = staged_local_path cfg url ft now hex8"
  by (auto simp: download_file_alt split: prod.splits bool.splits)

lemma submit_except_shrinks: "shrinks (task_files s) (task_files (snd (submit_except a v c s)))"
  by (simp add: submit_except_def Let_def logger_def cleanup_files_def
           del: do_cleanup.simps split: option.splits)

lemma submit_task_task_files:
  "shrinks (task_files s) (task_files (snd (submit_task cfg audio_url video_url env s)))
   \<or> task_files (snd (submit_task cfg audio_url video_url env s)) =
       AList.update (new_code env) (new_record cfg audio_url video_url env) (task_files s)"
proof -
  obtain r1 s1 where d1: "download_file cfg audio_url ''audio'' (audio_now env) (audio_hex env)
      (audio_resp env) s = (r1, s1)"
    by (cases "download_file cfg audio_url ''audio'' (audio_now env) (audio_hex env)
      (audio_resp env) s")
  have t1: "task_files s1 = task_files s"
    using download_file_task_files [of cfg audio_url "''audio''" "audio_now env" "audio_hex env"
        "audio_resp env" s] d1 by simp
  show ?thesis
  proof (cases r1)
    case (Inl e1)
    then show ?thesis
      using d1 submit_except_shrinks [of s1 None None None] by (simp add: submit_task_def t1)
  next
    case (Inr pair)
    obtain cp lp where pair: "pair = (cp, lp)" by (cases pair)
    have lp: "lp = staged_local_path cfg audio_url ''audio'' (audio_now env) (audio_hex env)"
      using download_file_fst_Inr [of cfg audio_url "''audio''" "audio_now env" "audio_hex env"
        "audio_resp env" s cp lp] d1 Inr pair by simp
    obtain r2 s2 where d2: "download_file cfg video_url ''video'' (video_now env) (video_hex env)
      (video_resp env) s1 = (r2, s2)"
      by (cases "download_file cfg video_url ''video'' (video_now env) (video_hex env)
      (video_resp env) s1")
    have t2: "task_files s2 = task_files s"
      using download_file_task_files [of cfg video_url "''video''" "video_now env" "video_hex env"
        "video_resp env" s1] d2 t1 by simp
    show ?thesis
    proof (cases r2)
      case (Inl e2)
      then show ?thesis
        using d1 d2 Inr pair submit_except_shrinks [of s2 "Some lp" None None]
        by (simp add: submit_task_def t2)
    next
      case Inr2: (Inr pair2)
      obtain cp2 lp2 where pair2: "pair2 = (cp2, lp2)" by (cases pair2)
      have lp2: "lp2 = staged_local_path cfg video_url ''video'' (video_now env) (video_hex env)"
        using download_file_fst_Inr [of cfg video_url "''video''" "video_now env" "video_hex env"
          "video_resp env" s1 cp2 lp2] d2 Inr2 pair2 by simp
      show ?thesis
        using d1 d2 Inr pair Inr2 pair2
              submit_except_shrinks [of s2 "Some lp" "Some lp2" "Some (new_code env)"]
        by (simp add: submit_task_def Let_def t2 new_record_def lp lp2)
    qed
  qed
qed

lemma get_result_task_files:
  "task_files (snd (get_result cfg result_filename task_code now s)) = task_files s
   \<or> (\<exists>code ti. task_code = Some code \<and> map_of (task_files s) code = Some ti
         \<and> task_files (snd (get_result cfg result_filename task_code now s)) =
             AList.update code
               (ti\<lparr>result_file := Some (output_path cfg result_filename),
                   result_retrieved_time := Some now\<rparr>) (task_files s))"
  by (cases task_code)
     (auto simp add: get_result_def Let_def output_path_def logger_def cleanup_files_def
                schedule_task_cleanup_def
           simp del: do_cleanup.simps split: option.splits entry.splits)

lemma pop_expired_shrinks:
  "shrinks (task_files (fst acc)) (task_files (fst (pop_expired codes acc)))"
proof (induction codes arbitrary: acc)
  case Nil
  show ?case by simp
next
  case (Cons c codes)
  let ?acc' = "((fst acc)\<lparr>task_files := AList.delete c (task_files (fst acc))\<rparr>,
                (snd acc)\<lparr>expired_tasks := expired_tasks (snd acc) + 1\<rparr>)"
  have "shrinks (task_files (fst acc)) (task_files (fst ?acc'))"
    by simp
  moreover have "shrinks (task_files (fst ?acc')) (task_files (fst (pop_expired codes ?acc')))"
    by (rule Cons.IH)
  ultimately have "shrinks (task_files (fst acc)) (task_files (fst (pop_expired codes ?acc')))"
    by (rule shrinks_trans)
  then show ?case
    by (simp add: pop_expired_step)
qed

lemma sweep_fold_task_files_acc:
  "task_files (fst (fold (sweep_file cfg now active) ps acc)) = task_files (fst acc)"
  using sweep_fold_task_files [of cfg now active ps "fst acc" "snd acc"] by simp

lemma periodic_cleanup_shrinks:
  "shrinks (task_files s) (task_files (snd (periodic_cleanup cfg now s)))"
proof -
  let ?acc = "fold (sweep_file cfg now (active_files (task_files s)))
                (iterdir (DUIX_DATA_DIR cfg) (files s))
                (s, \<lparr>orphan_files = 0, old_files = 0, expired_tasks = 0\<rparr>)"
  have "task_files (snd (periodic_cleanup cfg now s)) =
        task_files (fst (pop_expired (expired_tasks_of cfg now (task_files (fst ?acc))) ?acc))"
    by (simp add: periodic_cleanup_def Let_def logger_def case_prod_beta)
  moreover have "task_files (fst ?acc) = task_files s"
    by (simp add: sweep_fold_task_files_acc)
  ultimately show ?thesis
    using pop_expired_shrinks [of ?acc "expired_tasks_of cfg now (task_files (fst ?acc))"]
    by simp
qed

lemma wake_shrinks:
  "shrinks (task_files s) (task_files (apply_op cfg (Wake i) s))"
proof (cases "i < length (pending s)")
  case True
  then show ?thesis
    by (cases "pending s ! i") (simp_all del: do_cleanup.simps)
next
  case False
  then show ?thesis by simp
qed

lemma apply_op_task_files:
  "shrinks (task_files s) (task_files (apply_op cfg op s))
   \<or> (\<exists>audio_url video_url env. op = Submit audio_url video_url env
        \<and> task_files (apply_op cfg op s) =
            AList.update (new_code env) (new_record cfg audio_url video_url env) (task_files s))
   \<or> (\<exists>result_filename code now ti. op = Fetch result_filename (Some code) now
        \<and> map_of (task_files s) code = Some ti
        \<and> task_files (apply_op cfg op s) =
            AList.update code
              (ti\<lparr>result_file := Some (output_path cfg result_filename),
                  result_retrieved_time := Some now\<rparr>) (task_files s))"
proof (cases op)
  case (Submit a v env)
  then show ?thesis using submit_task_task_files [of s cfg a v env] by auto
next
  case (Fetch fn tc now)
  then show ?thesis using get_result_task_files [of cfg fn tc now s] by auto
next
  case (Wake i)
  then show ?thesis using wake_shrinks [of s cfg i] by simp
next
  case (Sweep now)
  then show ?thesis using periodic_cleanup_shrinks [of s cfg now] by simp
next
  case (World fs)
  then show ?thesis by simp
qed

lemma output_path_nonempty [simp]: "output_path cfg result_filename \<noteq> []"
  by (simp add: output_path_def path_join_def)

lemma new_record_paths [simp]: "[] \<notin> task_paths (new_record cfg audio_url video_url env)"
  by (simp add: task_paths_def new_record_def staged_local_path_nonempty [symmetric])

lemma task_paths_result:
  "task_paths (ti\<lparr>result_file := Some r, result_retrieved_time := t\<rparr>) \<subseteq> insert r (task_paths ti)"
  by (auto simp: task_paths_def)

lemma registry_ok_shrinks: "registry_ok tf \<Longrightarrow> shrinks tf tf' \<Longrightarrow> registry_ok tf'"
  by (auto simp: registry_ok_def shrinks_def)

lemma registry_ok_update:
  assumes "registry_ok tf" and "[] \<notin> task_paths v"
  shows "registry_ok (AList.update k v tf)"
proof -
  have "distinct (map fst (AList.update k v tf))"
    using assms(1) by (simp add: registry_ok_def distinct_update)
  moreover have "\<forall>(c, ti)\<in>set (AList.update k v tf). [] \<notin> task_paths ti"
    using assms set_update_subset [of k v tf] by (auto simp: registry_ok_def)
  ultimately show ?thesis by (simp add: registry_ok_def)
qed

lemma registry_ok_apply_op:
  assumes "registry_ok (task_files s)"
  shows "registry_ok (task_files (apply_op cfg op s))"
proof -
  consider (shrink) "shrinks (task_files s) (task_files (apply_op cfg op s))"
    | (submit) audio_url video_url env where
        "task_files (apply_op cfg op s) =
           AList.update (new_code env) (new_record cfg audio_url video_url env) (task_files s)"
    | (fetch) result_filename code now ti where
        "map_of (task_files s) code = Some ti"
        "task_files (apply_op cfg op s) =
           AList.update code (ti\<lparr>result_file := Some (output_path cfg result_filename),
                                 result_retrieved_time := Some now\<rparr>) (task_files s)"
    using apply_op_task_files [of s cfg op] by blast
  then show ?thesis
  proof cases
    case shrink
    with assms show ?thesis by (rule registry_ok_shrinks)
  next
    case submit
    then show ?thesis using assms by (simp add: registry_ok_update)
  next
    case fetch
    have "(code, ti) \<in> set (task_files s)"
      using fetch(1) by (rule map_of_SomeD)
    then have "[] \<notin> task_paths ti"
      using assms by (auto simp: registry_ok_def)
    then have "[] \<notin> task_paths (ti\<lparr>result_file := Some (output_path cfg result_filename),
                                 result_retrieved_time := Some now\<rparr>)"
      using task_paths_result [where ti = ti and r = "output_path cfg result_filename" and t = "Some now"]
            output_path_nonempty [of cfg result_filename, symmetric]
      by blast
    then show ?thesis using assms fetch(2) by (simp add: registry_ok_update)
  qed
qed

lemma registry_ok_run:
  "registry_ok (task_files s) \<Longrightarrow> registry_ok (task_files (run cfg ops s))"
  unfolding run_def
  by (induction ops arbitrary: s) (simp_all add: registry_ok_apply_op)

lemma registry_ok_init [simp]: "registry_ok (task_files (init fs))"
  by (simp add: registry_ok_def init_def)

lemma active_files_spec:
  assumes "registry_ok tf"
  shows "active_files tf = spec_active_file_set tf"
proof -
  have "ran (map_of tf) = snd ` set tf"
    using assms by (simp add: registry_ok_def ran_distinct)
  then have "spec_active_file_set tf = (\<Union>(c, ti)\<in>set tf. task_paths ti)"
    by (auto simp: spec_active_file_set_def)
  moreover have "(\<Union>(c, ti)\<in>set tf. task_paths ti - {[]}) = (\<Union>(c, ti)\<in>set tf. task_paths ti)"
    using assms by (auto simp: registry_ok_def)
  ultimately show ?thesis by (simp add: active_files_eq)
qed

text \<open>
  C2. In every state the service reaches from its start (any sequence of submissions,
  result fetches, waking threads, cleanup passes and changes of the file system by
  others), the set computed by the first block of \<^verbatim>\<open>periodic_cleanup\<close> is exactly
  the union, over the records of the task table, of the two input paths and of the
  result path when set.
\<close>

theorem active_files_exact:
  "active_files (task_files (run cfg ops (init fs)))
     = spec_active_file_set (task_files (run cfg ops (init fs)))"
  by (simp add: active_files_spec registry_ok_run)

theorem active_files_exact_witness:
  "spec_active_file_set (task_files example_fetched)
     = {''/code/data/a.mp3'', ''/code/data/b.mp4'', ''/code/data/temp/out.mp4''}"
proof -
  have "active_files (task_files example_fetched)
     = {''/code/data/a.mp3'', ''/code/data/b.mp4'', ''/code/data/temp/out.mp4''}"
    by code_simp
  then show ?thesis
    using active_files_exact
      [of default_config
          "[Submit ''/media/a.mp3'' ''/media/b.mp4'' example_env,
            World [(''/code/data/a.mp3'', File 0 ''AUDIO'' False),
                   (''/code/data/b.mp4'', File 1 ''VIDEO'' False),
                   (''/code/data/temp'', Dir),
                   (''/code/data/temp/out.mp4'', File 40 ''RESULT'' False)],
            Fetch ''out.mp4'' (Some ''job1'') 50]" "[]"]
    by (simp add: example_fetched_def)
qed

subsection \<open>Records and their files in a pass\<close>

lemma expired_tasks_of_mem:
  "c \<in> set (expired_tasks_of cfg now tf) \<longleftrightarrow>
     (\<exists>ti. (c, ti) \<in> set tf \<and> now - created_time ti > real_of_int (MAX_FILE_AGE cfg))"
  by (force simp: expired_tasks_of_def)

lemma periodic_cleanup_task_files:
  assumes "distinct (map fst (task_files s))" and "map_of (task_files s) code = Some ti"
  shows "map_of (task_files (snd (periodic_cleanup cfg now s))) code =
           (if now - created_time ti > real_of_int (MAX_FILE_AGE cfg) then None else Some ti)"
proof -
  let ?acc = "fold (sweep_file cfg now (active_files (task_files s)))
                (iterdir (DUIX_DATA_DIR cfg) (files s))
                (s, \<lparr>orphan_files = 0, old_files = 0, expired_tasks = 0\<rparr>)"
  have tf: "task_files (fst ?acc) = task_files s"
    by (simp add: sweep_fold_task_files_acc)
  have eq: "task_files (snd (periodic_cleanup cfg now s)) =
        task_files (fst (pop_expired (expired_tasks_of cfg now (task_files (fst ?acc))) ?acc))"
    by (simp add: periodic_cleanup_def Let_def logger_def case_prod_beta)
  have only: "(code, ti') \<in> set (task_files s) \<longleftrightarrow> ti' = ti" for ti'
    using assms by (metis map_of_eq_Some_iff option.inject)
  have "code \<in> set (expired_tasks_of cfg now (task_files s))
          \<longleftrightarrow> now - created_time ti > real_of_int (MAX_FILE_AGE cfg)"
    by (simp add: expired_tasks_of_mem only)
  then show ?thesis
    using assms(2) by (simp add: eq tf pop_expired_task_files)
qed

lemma posix_str_nonempty [simp]: "posix_str p \<noteq> []"
  by (simp add: posix_str_def Let_def)

text \<open>
  C4, as amended. While a record exists and names a file of the storage directory by
  the string under which the pass lists it, the pass removes that file exactly when
  the file itself is older than \<open>MAX_FILE_AGE\<close> (and \<^verbatim>\<open>unlink\<close> does not raise),
  and leaves it unchanged otherwise, whatever the \<open>created_time\<close> of the record.
  The \<open>created_time\<close> decides the record alone: at the end of the pass the record
  is dropped exactly when it is older than \<open>MAX_FILE_AGE\<close>.
\<close>

theorem periodic_cleanup_record_files:
  assumes "distinct (map fst (task_files s))"
    and "map_of (task_files s) code = Some ti"
    and "task_get ti k = Some (posix_str q)"
    and "is_child (DUIX_DATA_DIR cfg) q"
    and "map_of (files s) q = Some (File m c i)"
  shows "(map_of (files (snd (periodic_cleanup cfg now s))) q = None
            \<longleftrightarrow> now - m > real_of_int (MAX_FILE_AGE cfg) \<and> \<not> i)
       \<and> (map_of (files (snd (periodic_cleanup cfg now s))) q = Some (File m c i)
            \<longleftrightarrow> now - m \<le> real_of_int (MAX_FILE_AGE cfg) \<or> i)
       \<and> map_of (task_files (snd (periodic_cleanup cfg now s))) code =
           (if now - created_time ti > real_of_int (MAX_FILE_AGE cfg) then None else Some ti)"
proof -
  have mem: "(code, ti) \<in> set (task_files s)"
    using assms(2) by (rule map_of_SomeD)
  have "posix_str q \<in> task_paths ti"
    using assms(3) by (cases k) (auto simp: task_paths_def)
  then have act: "posix_str q \<in> active_files (task_files s)"
    using mem by (auto simp: active_files_eq)
  have fate: "map_of (files (snd (periodic_cleanup cfg now s))) q =
      (if now - m > real_of_int (MAX_FILE_AGE cfg) \<and> \<not> i then None else Some (File m c i))"
    using assms(4,5) act by (simp add: periodic_cleanup_files doomed_def unlinkable_def)
  have gone: "map_of (files (snd (periodic_cleanup cfg now s))) q = None
            \<longleftrightarrow> now - m > real_of_int (MAX_FILE_AGE cfg) \<and> \<not> i"
    by (simp add: fate)
  have kept: "map_of (files (snd (periodic_cleanup cfg now s))) q = Some (File m c i)
            \<longleftrightarrow> now - m \<le> real_of_int (MAX_FILE_AGE cfg) \<or> i"
    by (auto simp: fate)
  from gone kept periodic_cleanup_task_files [OF assms(1,2)] show ?thesis
    by blast
qed

theorem periodic_cleanup_record_files_witness:
  "map_of (files (snd (periodic_cleanup default_config 7000 example_submitted)))
      ''/code/data/a.mp3'' = Some (File 0 ''AUDIO'' False)
   \<and> map_of (files (snd (periodic_cleanup default_config 7203 example_submitted)))
      ''/code/data/a.mp3'' = None
   \<and> map_of (task_files (snd (periodic_cleanup default_config 7203 example_submitted))) ''job1''
      = Some \<lparr>audio_local = ''/code/data/a.mp3'', video_local = ''/code/data/b.mp4'',
              created_time = 5, result_file = None, result_retrieved_time = None\<rparr>
   \<and> map_of (task_files (snd (periodic_cleanup default_config 7300 example_submitted))) ''job1''
      = None"
proof -
  let ?ti = "\<lparr>audio_local = ''/code/data/a.mp3'', video_local = ''/code/data/b.mp4'',
              created_time = 5, result_file = None, result_retrieved_time = None\<rparr>"
  have a: "distinct (map fst (task_files example_submitted))"
    by code_simp
  have b: "map_of (task_files example_submitted) ''job1'' = Some ?ti"
    by code_simp
  have p: "posix_str ''/code/data/a.mp3'' = ''/code/data/a.mp3''"
    by code_simp
  have c: "task_get ?ti Audio_local = Some (posix_str ''/code/data/a.mp3'')"
    by (simp add: p)
  have d: "is_child (DUIX_DATA_DIR default_config) ''/code/data/a.mp3''"
    by code_simp
  have e: "map_of (files example_submitted) ''/code/data/a.mp3'' = Some (File 0 ''AUDIO'' False)"
    by code_simp
  have f: "real_of_int (MAX_FILE_AGE default_config) = 7200"
    by (simp add: default_config_def)
  show ?thesis
    using periodic_cleanup_record_files [OF a b c d e, of 7000]
          periodic_cleanup_record_files [OF a b c d e, of 7203]
          periodic_cleanup_record_files [OF a b c d e, of 7300]
    by (simp add: f)
qed

text \<open>
  C4 as stated fails. After one submission whose downloads end at times 0 and 1 and
  whose record is made at time 5, a pass at time 7203 finds the record 7198 seconds
  old, within \<open>MAX_FILE_AGE = 7200\<close>, and the audio file in the active set; the file
  is 7203 seconds old and the pass removes it, and the record is still there.
\<close>

theorem sweep_ignores_record_age_counterexample:
  "map_of (task_files example_submitted) ''job1'' =
      Some \<lparr>audio_local = ''/code/data/a.mp3'', video_local = ''/code/data/b.mp4'',
            created_time = 5, result_file = None, result_retrieved_time = None\<rparr>
   \<and> \<not> (7203 - 5 > real_of_int (MAX_FILE_AGE default_config))
   \<and> ''/code/data/a.mp3'' \<in> active_files (task_files example_submitted)
   \<and> map_of (files example_submitted) ''/code/data/a.mp3'' = Some (File 0 ''AUDIO'' False)
   \<and> map_of (files (snd (periodic_cleanup default_config 7203 example_submitted)))
        ''/code/data/a.mp3'' = None
   \<and> map_of (task_files (snd (periodic_cleanup default_config 7203 example_submitted))) ''job1''
        = map_of (task_files example_submitted) ''job1''"
  by code_simp

subsection \<open>Exclusive paths\<close>

lemma exclusive_paths_subset:
  "exclusive_paths tf \<Longrightarrow> set tf' \<subseteq> set tf \<Longrightarrow> exclusive_paths tf'"
  unfolding exclusive_paths_def by blast

lemma exclusive_paths_update:
  assumes "exclusive_paths tf"
    and "\<forall>(c, ti)\<in>set tf. c \<noteq> k \<longrightarrow> task_paths v \<inter> task_paths ti = {}"
  shows "exclusive_paths (AList.update k v tf)"
proof -
  have sub: "set (AList.update k v tf) \<subseteq> insert (k, v) (set tf)"
    by (rule set_update_subset)
  show ?thesis
    unfolding exclusive_paths_def
  proof (intro ballI, clarify)
    fix c1 t1 c2 t2
    assume in1: "(c1, t1) \<in> set (AList.update k v tf)"
      and in2: "(c2, t2) \<in> set (AList.update k v tf)" and ne: "c1 \<noteq> c2"
    from in1 sub have a1: "(c1, t1) = (k, v) \<or> (c1, t1) \<in> set tf" by blast
    from in2 sub have a2: "(c2, t2) = (k, v) \<or> (c2, t2) \<in> set tf" by blast
    from a1 a2 ne show "task_paths t1 \<inter> task_paths t2 = {}"
      using assms unfolding exclusive_paths_def by fastforce
  qed
qed

lemma download_file_task_files_eq:
  "download_file cfg url ft now hex8 resp s = (r, s') \<Longrightarrow> task_files s' = task_files s"
  using download_file_task_files [of cfg url ft now hex8 resp s] by simp

lemma submit_task_Inl_shrinks:
  assumes "fst (submit_task cfg audio_url video_url env s) = Inl e"
  shows "shrinks (task_files s) (task_files (snd (submit_task cfg audio_url video_url env s)))"
proof -
  obtain r1 s1 where d1: "download_file cfg audio_url ''audio'' (audio_now env) (audio_hex env)
      (audio_resp env) s = (r1, s1)"
    by (cases "download_file cfg audio_url ''audio'' (audio_now env) (audio_hex env)
      (audio_resp env) s")
  have t1: "task_files s1 = task_files s"
    using d1 by (rule download_file_task_files_eq)
  show ?thesis
  proof (cases r1)
    case (Inl e1)
    then show ?thesis
      using d1 submit_except_shrinks [of s1 None None None] by (simp add: submit_task_def t1)
  next
    case (Inr pair)
    obtain cp lp where pair: "pair = (cp, lp)" by (cases pair)
    obtain r2 s2 where d2: "download_file cfg video_url ''video'' (video_now env) (video_hex env)
      (video_resp env) s1 = (r2, s2)"
      by (cases "download_file cfg video_url ''video'' (video_now env) (video_hex env)
      (video_resp env) s1")
    have t2: "task_files s2 = task_files s"
      using d2 t1 download_file_task_files_eq by metis
    show ?thesis
    proof (cases r2)
      case (Inl e2)
      then show ?thesis
        using d1 d2 Inr pair submit_except_shrinks [of s2 "Some lp" None None]
        by (simp add: submit_task_def t2)
    next
      case Inr2: (Inr pair2)
      obtain cp2 lp2 where pair2: "pair2 = (cp2, lp2)" by (cases pair2)
      have "engine env \<noteq> Reply 200 (Some 10000)"
        using assms d1 d2 Inr pair Inr2 pair2 by (auto simp: submit_task_def Let_def)
      then show ?thesis
        using d1 d2 Inr pair Inr2 pair2
              submit_except_shrinks [of s2 "Some lp" "Some lp2" "Some (new_code env)"]
        by (simp add: submit_task_def Let_def t2)
    qed
  qed
qed

lemma get_result_unrecorded:
  assumes "\<not> records cfg (Fetch result_filename task_code now) s"
  shows "task_files (snd (get_result cfg result_filename task_code now s)) = task_files s"
proof (cases "\<exists>e. fst (get_result cfg result_filename task_code now s) = Inl e")
  case True
  then show ?thesis
    by (auto simp add: get_result_def Let_def logger_def split: option.splits entry.splits)
next
  case False
  then obtain r where r: "fst (get_result cfg result_filename task_code now s) = Inr r"
    by (cases "fst (get_result cfg result_filename task_code now s)") auto
  with assms have none: "task_code = None \<or> (\<exists>code. task_code = Some code
      \<and> (code = [] \<or> map_of (task_files s) code = None))"
    by (cases task_code) auto
  then show ?thesis
    by (auto simp add: get_result_def Let_def logger_def cleanup_files_def
               schedule_task_cleanup_def
             simp del: do_cleanup.simps split: option.splits entry.splits)
qed

lemma unrecorded_shrinks:
  assumes "\<not> records cfg op s"
  shows "shrinks (task_files s) (task_files (apply_op cfg op s))"
proof (cases op)
  case (Submit a v env)
  with assms obtain e where "fst (submit_task cfg a v env s) = Inl e"
    by (cases "fst (submit_task cfg a v env s)") auto
  then show ?thesis
    using Submit by (simp add: submit_task_Inl_shrinks)
next
  case (Fetch fn tc now)
  then show ?thesis
    using assms by (simp add: get_result_unrecorded)
next
  case (Wake i)
  then show ?thesis using wake_shrinks [of s cfg i] by simp
next
  case (Sweep now)
  then show ?thesis using periodic_cleanup_shrinks [of s cfg now] by simp
next
  case (World fs)
  then show ?thesis by simp
qed

text \<open>
  C5, as amended. The task table does not keep paths exclusive by itself. An
  operation keeps them exclusive when the paths it records are not already named by
  a record of another identifier: for a submission that succeeds its two staged
  paths, for a result fetch that succeeds for an identifier of the table its output
  path. An operation that records nothing keeps them exclusive always: a call that
  fails, a fetch without a known identifier, a waking thread, a cleanup pass, a
  change of the file system.
\<close>

theorem exclusive_paths_preserved:
  assumes "exclusive_paths (task_files s)"
    and "records cfg op s \<longrightarrow> fresh_for cfg op s"
  shows "exclusive_paths (task_files (apply_op cfg op s))"
proof (cases "records cfg op s")
  case False
  then have "shrinks (task_files s) (task_files (apply_op cfg op s))"
    by (rule unrecorded_shrinks)
  then show ?thesis
    using assms(1) exclusive_paths_subset by (auto simp: shrinks_def)
next
  case True
  with assms(2) have fresh: "fresh_for cfg op s" by simp
  consider (shrink) "shrinks (task_files s) (task_files (apply_op cfg op s))"
    | (submit) audio_url video_url env where
        "op = Submit audio_url video_url env"
        "task_files (apply_op cfg op s) =
           AList.update (new_code env) (new_record cfg audio_url video_url env) (task_files s)"
    | (fetch) result_filename code now ti where
        "op = Fetch result_filename (Some code) now"
        "map_of (task_files s) code = Some ti"
        "task_files (apply_op cfg op s) =
           AList.update code (ti\<lparr>result_file := Some (output_path cfg result_filename),
                                 result_retrieved_time := Some now\<rparr>) (task_files s)"
    using apply_op_task_files [of s cfg op] by blast
  then show ?thesis
  proof cases
    case shrink
    then show ?thesis
      using assms(1) exclusive_paths_subset by (auto simp: shrinks_def)
  next
    case submit
    have "\<forall>(c, ti)\<in>set (task_files s). c \<noteq> new_code env \<longrightarrow>
        task_paths (new_record cfg audio_url video_url env) \<inter> task_paths ti = {}"
      using fresh submit(1) by simp
    then show ?thesis
      using assms(1) submit(2) by (simp add: exclusive_paths_update)
  next
    case fetch
    let ?ti' = "ti\<lparr>result_file := Some (output_path cfg result_filename),
                    result_retrieved_time := Some now\<rparr>"
    have mem: "(code, ti) \<in> set (task_files s)"
      using fetch(2) by (rule map_of_SomeD)
    have "\<forall>(c, t)\<in>set (task_files s). c \<noteq> code \<longrightarrow> task_paths ?ti' \<inter> task_paths t = {}"
    proof (intro ballI, clarify)
      fix c t
      assume in_tf: "(c, t) \<in> set (task_files s)" and ne: "c \<noteq> code"
      have old: "task_paths ti \<inter> task_paths t = {}"
        using assms(1) mem in_tf ne unfolding exclusive_paths_def by fastforce
      have new: "output_path cfg result_filename \<notin> task_paths t"
        using fresh fetch(1) in_tf ne by auto
      show "task_paths ?ti' \<inter> task_paths t = {}"
        using old new task_paths_result [where ti = ti and r = "output_path cfg result_filename" and t = "Some now"]
        by blast
    qed
    then show ?thesis
      using assms(1) fetch(3) by (simp add: exclusive_paths_update)
  qed
qed

text \<open>
  C5 as stated fails. Two submissions whose audio URLs end in the same file name
  \<^verbatim>\<open>a.mp3\<close> are both staged at \<^verbatim>\<open>/code/data/a.mp3\<close>, and the task table then holds
  two records, under two identifiers, that name this path.
\<close>

theorem exclusive_paths_counterexample:
  "map_of (task_files example_shared) ''job1'' =
      Some \<lparr>audio_local = ''/code/data/a.mp3'', video_local = ''/code/data/b.mp4'',
            created_time = 5, result_file = None, result_retrieved_time = None\<rparr>
   \<and> map_of (task_files example_shared) ''job2'' =
      Some \<lparr>audio_local = ''/code/data/a.mp3'', video_local = ''/code/data/c.mp4'',
            created_time = 15, result_file = None, result_retrieved_time = None\<rparr>
   \<and> \<not> exclusive_paths (task_files example_shared)"
  by code_simp

theorem exclusive_paths_preserved_witness:
  "exclusive_paths (task_files example_submitted)
   \<and> exclusive_paths
        (task_files (apply_op default_config
                       (Submit ''/media/x.mp3'' ''/media/y.mp4'' example_env2) example_submitted))
   \<and> map_of (task_files (apply_op default_config
                       (Submit ''/media/x.mp3'' ''/media/y.mp4'' example_env2) example_submitted))
        ''job2''
      = Some \<lparr>audio_local = ''/code/data/x.mp3'', video_local = ''/code/data/y.mp4'',
            created_time = 15, result_file = None, result_retrieved_time = None\<rparr>
   \<and> \<not> fresh_for default_config
          (Submit ''/media/a.mp3'' ''/media/y.mp4'' example_rejected_env2) example_submitted
   \<and> \<not> records default_config
          (Submit ''/media/a.mp3'' ''/media/y.mp4'' example_rejected_env2) example_submitted
   \<and> exclusive_paths
        (task_files (apply_op default_config
                       (Submit ''/media/a.mp3'' ''/media/y.mp4'' example_rejected_env2)
                       example_submitted))"
proof -
  have a: "exclusive_paths (task_files example_submitted)"
    by code_simp
  have b: "fresh_for default_config (Submit ''/media/x.mp3'' ''/media/y.mp4'' example_env2)
             example_submitted"
    by code_simp
  have c: "map_of (task_files (apply_op default_config
                       (Submit ''/media/x.mp3'' ''/media/y.mp4'' example_env2) example_submitted))
        ''job2''
      = Some \<lparr>audio_local = ''/code/data/x.mp3'', video_local = ''/code/data/y.mp4'',
            created_time = 15, result_file = None, result_retrieved_time = None\<rparr>"
    by code_simp
  have d: "\<not> fresh_for default_config
          (Submit ''/media/a.mp3'' ''/media/y.mp4'' example_rejected_env2) example_submitted"
    by code_simp
  have e: "\<not> records default_config
          (Submit ''/media/a.mp3'' ''/media/y.mp4'' example_rejected_env2) example_submitted"
    by code_simp
  show ?thesis
    using exclusive_paths_preserved
            [where s = example_submitted and cfg = default_config
               and op = "Submit ''/media/x.mp3'' ''/media/y.mp4'' example_env2"]
          exclusive_paths_preserved
            [where s = example_submitted and cfg = default_config
               and op = "Submit ''/media/a.mp3'' ''/media/y.mp4'' example_rejected_env2"]
          a b c d e
    by simp
qed

subsection \<open>Staged files and the result directory\<close>

lemma digit_no_slash: "n < 10 \<Longrightarrow> ''0123456789'' ! n \<noteq> CHR ''/''"
proof -
  assume "n < 10"
  then have "n \<in> {0, 1, 2, 3, 4, 5, 6, 7, 8, 9}" by auto
  then show ?thesis by auto
qed

lemma str_nat_no_slash: "CHR ''/'' \<notin> set (str_nat n)"
proof (induction n rule: str_nat.induct)
  case (1 n)
  show ?case
  proof (cases "n < 10")
    case True
    then show ?thesis
      using digit_no_slash [of n] by (subst str_nat.simps) auto
  next
    case False
    then show ?thesis
      using "1.IH" digit_no_slash [of "n mod 10"] by (subst str_nat.simps) auto
  qed
qed

lemma str_int_no_slash: "CHR ''/'' \<notin> set (str_int i)"
  by (simp add: str_int_def str_nat_no_slash)

lemma basename_no_slash: "CHR ''/'' \<notin> set (basename p)"
proof
  assume "CHR ''/'' \<in> set (basename p)"
  then have "CHR ''/'' \<in> set (takeWhile (\<lambda>c. c \<noteq> CHR ''/'') (rev p))"
    by (simp add: basename_def)
  then show False by (auto dest: set_takeWhileD)
qed

lemma staged_filename_no_slash:
  assumes "CHR ''/'' \<notin> set ft" and "CHR ''/'' \<notin> set hex8"
  shows "CHR ''/'' \<notin> set (staged_filename url ft now hex8)"
  using assms basename_no_slash [of url]
  by (auto simp: staged_filename_def Let_def str_int_no_slash)

lemma path_join_relative:
  "CHR ''/'' \<notin> set b \<Longrightarrow> path_join a b = dir_prefix a @ b"
  by (cases b) (auto simp: path_join_def dir_prefix_def)

lemma staged_not_under_temp:
  assumes "CHR ''/'' \<notin> set ft" and "CHR ''/'' \<notin> set hex8"
    and "\<not> (name \<noteq> [] \<and> hd name = CHR ''/'')"
  shows "staged_local_path cfg url ft now hex8 \<noteq> output_path cfg name"
proof
  assume eq: "staged_local_path cfg url ft now hex8 = output_path cfg name"
  let ?d = "DUIX_DATA_DIR cfg"
  have l: "staged_local_path cfg url ft now hex8 = dir_prefix ?d @ staged_filename url ft now hex8"
    using staged_filename_no_slash [OF assms(1,2)]
    by (simp add: staged_local_path_def path_join_relative)
  have temp: "path_join ?d ''temp'' = dir_prefix ?d @ ''temp''"
    by (simp add: path_join_def dir_prefix_def)
  have r: "output_path cfg name = dir_prefix ?d @ ''temp/'' @ name"
    using assms(3) by (simp add: output_path_def temp) (simp add: path_join_def)
  from eq l r have "staged_filename url ft now hex8 = ''temp/'' @ name" by simp
  then have "CHR ''/'' \<in> set (staged_filename url ft now hex8)" by simp
  with staged_filename_no_slash [OF assms(1,2)] show False by blast
qed

lemma download_file_frame:
  "p \<noteq> staged_local_path cfg url ft now hex8 \<Longrightarrow>
     map_of (files (snd (download_file cfg url ft now hex8 resp s))) p = map_of (files s) p"
proof -
  assume ne: "p \<noteq> staged_local_path cfg url ft now hex8"
  obtain r s' where d: "download_file cfg url ft now hex8 resp s = (r, s')"
    by (cases "download_file cfg url ft now hex8 resp s")
  show ?thesis
  proof (cases r)
    case (Inl e)
    with d download_file_Inl [of cfg url ft now hex8 resp s e s'] ne show ?thesis by simp
  next
    case (Inr pair)
    obtain cp lp where "pair = (cp, lp)" by (cases pair)
    with d Inr download_file_Inr [of cfg url ft now hex8 resp s cp lp s'] ne show ?thesis
      by (auto simp: map_of_update)
  qed
qed

lemma submit_except_frame:
  "a \<noteq> Some p \<Longrightarrow> v \<noteq> Some p \<Longrightarrow>
     map_of (files (snd (submit_except a v c s))) p = map_of (files s) p"
  by (simp add: submit_except_files)

lemma submit_task_frame:
  assumes "p \<noteq> staged_local_path cfg audio_url ''audio'' (audio_now env) (audio_hex env)"
    and "p \<noteq> staged_local_path cfg video_url ''video'' (video_now env) (video_hex env)"
  shows "map_of (files (snd (submit_task cfg audio_url video_url env s))) p = map_of (files s) p"
proof -
  obtain r1 s1 where d1: "download_file cfg audio_url ''audio'' (audio_now env) (audio_hex env)
      (audio_resp env) s = (r1, s1)"
    by (cases "download_file cfg audio_url ''audio'' (audio_now env) (audio_hex env)
      (audio_resp env) s")
  have f1: "map_of (files s1) p = map_of (files s) p"
    using download_file_frame [OF assms(1), of "audio_resp env" s] d1 by simp
  show ?thesis
  proof (cases r1)
    case (Inl e1)
    then show ?thesis
      using d1 f1 by (simp add: submit_task_def submit_except_frame)
  next
    case (Inr pair)
    obtain cp lp where pair: "pair = (cp, lp)" by (cases pair)
    have lp: "lp = staged_local_path cfg audio_url ''audio'' (audio_now env) (audio_hex env)"
      using download_file_fst_Inr [of cfg audio_url "''audio''" "audio_now env" "audio_hex env"
        "audio_resp env" s cp lp] d1 Inr pair by simp
    obtain r2 s2 where d2: "download_file cfg video_url ''video'' (video_now env) (video_hex env)
      (video_resp env) s1 = (r2, s2)"
      by (cases "download_file cfg video_url ''video'' (video_now env) (video_hex env)
      (video_resp env) s1")
    have f2: "map_of (files s2) p = map_of (files s) p"
      using download_file_frame [OF assms(2), of "video_resp env" s1] d2 f1 by simp
    show ?thesis
    proof (cases r2)
      case (Inl e2)
      then show ?thesis
        using d1 d2 Inr pair f2 assms(1) lp by (simp add: submit_task_def submit_except_frame)
    next
      case Inr2: (Inr pair2)
      obtain cp2 lp2 where pair2: "pair2 = (cp2, lp2)" by (cases pair2)
      have lp2: "lp2 = staged_local_path cfg video_url ''video'' (video_now env) (video_hex env)"
        using download_file_fst_Inr [of cfg video_url "''video''" "video_now env" "video_hex env"
          "video_resp env" s1 cp2 lp2] d2 Inr2 pair2 by simp
      show ?thesis
        using d1 d2 Inr pair Inr2 pair2 f2 assms lp lp2
        by (simp add: submit_task_def Let_def submit_except_frame)
    qed
  qed
qed

lemma submit_task_spares_temp:
  assumes "CHR ''/'' \<notin> set (audio_hex env)" and "CHR ''/'' \<notin> set (video_hex env)"
    and "\<not> (name \<noteq> [] \<and> hd name = CHR ''/'')"
  shows "map_of (files (snd (submit_task cfg audio_url video_url env s))) (output_path cfg name)
           = map_of (files s) (output_path cfg name)"
proof (rule submit_task_frame)
  show "output_path cfg name \<noteq> staged_local_path cfg audio_url ''audio'' (audio_now env) (audio_hex env)"
    using staged_not_under_temp [of "''audio''" "audio_hex env" name cfg audio_url "audio_now env"]
          assms by auto
  show "output_path cfg name \<noteq> staged_local_path cfg video_url ''video'' (video_now env) (video_hex env)"
    using staged_not_under_temp [of "''video''" "video_hex env" name cfg video_url "video_now env"]
          assms by auto
qed

text \<open>
  C10. Whatever a pass changes in the file table is a regular file directly in the
  storage directory, and the change is its removal. The \<^verbatim>\<open>temp\<close> subdirectory stays,
  and so does every path \<^verbatim>\<open>get_result\<close> forms below it from a relative file name:
  the pass never reclaims a result file stored under \<^verbatim>\<open>temp\<close>. Nor does a
  submission, whose staged files lie directly in the storage directory (the random
  part of a made-up name holds no slash); what is left to reclaim a result file is
  the cleanup that \<^verbatim>\<open>get_result\<close> schedules.
\<close>

theorem periodic_cleanup_top_level_only:
  "(map_of (files (snd (periodic_cleanup cfg now s))) p \<noteq> map_of (files s) p
      \<longrightarrow> is_child (DUIX_DATA_DIR cfg) p
          \<and> (\<exists>m c. map_of (files s) p = Some (File m c False))
          \<and> map_of (files (snd (periodic_cleanup cfg now s))) p = None)
   \<and> (map_of (files s) (path_join (DUIX_DATA_DIR cfg) ''temp'') = Some Dir
      \<longrightarrow> map_of (files (snd (periodic_cleanup cfg now s))) (path_join (DUIX_DATA_DIR cfg) ''temp'')
            = Some Dir)
   \<and> (\<not> (name \<noteq> [] \<and> hd name = CHR ''/'')
      \<longrightarrow> map_of (files (snd (periodic_cleanup cfg now s))) (output_path cfg name)
            = map_of (files s) (output_path cfg name)
        \<and> (CHR ''/'' \<notin> set (audio_hex env) \<and> CHR ''/'' \<notin> set (video_hex env)
            \<longrightarrow> map_of (files (snd (submit_task cfg audio_url video_url env s)))
                    (output_path cfg name)
                  = map_of (files s) (output_path cfg name)))"
proof -
  let ?d = "DUIX_DATA_DIR cfg"
  have changed: "map_of (files (snd (periodic_cleanup cfg now s))) p \<noteq> map_of (files s) p
      \<longrightarrow> is_child ?d p \<and> (\<exists>m c. map_of (files s) p = Some (File m c False))
          \<and> map_of (files (snd (periodic_cleanup cfg now s))) p = None"
    by (auto simp: periodic_cleanup_files unlinkable_def split: option.splits entry.splits)
  have dir: "map_of (files s) (path_join ?d ''temp'') = Some Dir
      \<longrightarrow> map_of (files (snd (periodic_cleanup cfg now s))) (path_join ?d ''temp'') = Some Dir"
    by (simp add: periodic_cleanup_files unlinkable_def)
  have temp: "path_join ?d ''temp'' = dir_prefix ?d @ ''temp''"
    by (simp add: path_join_def dir_prefix_def)
  have inside: "\<not> (name \<noteq> [] \<and> hd name = CHR ''/'') \<Longrightarrow>
      output_path cfg name = dir_prefix ?d @ ''temp/'' @ name"
    by (simp add: output_path_def temp) (simp add: path_join_def)
  have "\<not> is_child ?d (dir_prefix ?d @ ''temp/'' @ name)"
    by (simp add: is_child_def Let_def)
  then have sweep: "\<not> (name \<noteq> [] \<and> hd name = CHR ''/'')
      \<longrightarrow> map_of (files (snd (periodic_cleanup cfg now s))) (output_path cfg name)
            = map_of (files s) (output_path cfg name)"
    using inside by (simp add: periodic_cleanup_files)
  have submit: "\<not> (name \<noteq> [] \<and> hd name = CHR ''/'')
      \<longrightarrow> CHR ''/'' \<notin> set (audio_hex env) \<and> CHR ''/'' \<notin> set (video_hex env)
      \<longrightarrow> map_of (files (snd (submit_task cfg audio_url video_url env s))) (output_path cfg name)
            = map_of (files s) (output_path cfg name)"
    using submit_task_spares_temp [of env name cfg audio_url video_url s] by blast
  from changed dir sweep submit show ?thesis by blast
qed

theorem periodic_cleanup_top_level_only_witness:
  "map_of (files (snd (periodic_cleanup default_config 1000 example_service)))
      ''/code/data/temp/out.mp4'' = Some (File 150 ''RESULT'' False)
   \<and> map_of (files (snd (periodic_cleanup default_config 1000 example_service)))
      ''/code/data/temp'' = Some Dir
   \<and> is_child ''/code/data'' ''/code/data/stray.bin''
   \<and> map_of (files (snd (submit_task default_config ''/media/x.mp3'' ''/media/y.mp4''
                            example_env example_service)))
      ''/code/data/temp/out.mp4'' = Some (File 150 ''RESULT'' False)"
proof -
  have a: "map_of (files (snd (periodic_cleanup default_config 1000 example_service)))
             ''/code/data/stray.bin'' \<noteq> map_of (files example_service) ''/code/data/stray.bin''"
    by code_simp
  have b: "path_join ''/code/data'' ''temp'' = ''/code/data/temp''"
      "output_path default_config ''out.mp4'' = ''/code/data/temp/out.mp4''"
      "DUIX_DATA_DIR default_config = ''/code/data''"
    by (simp_all add: path_join_def output_path_def default_config_def)
  have c: "map_of (files example_service) ''/code/data/temp'' = Some Dir"
      "map_of (files example_service) ''/code/data/temp/out.mp4'' = Some (File 150 ''RESULT'' False)"
    by (simp_all add: example_service_def)
  have d: "CHR ''/'' \<notin> set (audio_hex example_env)" "CHR ''/'' \<notin> set (video_hex example_env)"
    by (simp_all add: example_env_def)
  show ?thesis
    using periodic_cleanup_top_level_only
            [where cfg = default_config and now = 1000 and s = example_service
               and p = "''/code/data/stray.bin''" and name = "''out.mp4''"
               and env = example_env and audio_url = "''/media/x.mp3''"
               and video_url = "''/media/y.mp4''"]
          a d
    by (simp add: b c)
qed

end
